theory Spec2Isabelle
  imports Complex_Main "HOL-Library.AList"
begin

section \<open>Python values the cart handles\<close>

text \<open>
  The cart of \<^verbatim>\<open>carton/cart.py\<close> stores its items in Python dictionaries and writes a
  serialised copy into the Django session. The values that occur as dictionary keys and as
  leaves of the serialised form are integers and strings; a dictionary is an association
  list in insertion order with one entry per key (\<open>AList.update\<close> replaces in place or
  appends, as assignment to a \<^verbatim>\<open>dict\<close> does; \<open>AList.delete\<close> is \<^verbatim>\<open>del\<close> on a key
  that is present). An integer key and a string key are never equal, as in Python, where
  \<^verbatim>\<open>{'1': x}[1]\<close> raises \<^verbatim>\<open>KeyError\<close>.
\<close>

datatype pyval = PyInt int | PyStr string

datatype error = ValueError | KeyError | ImportError | AttributeError | InvalidOperation

subsection \<open>\<^verbatim>\<open>str\<close> and \<^verbatim>\<open>int\<close> on integers\<close>

definition digit_char :: "nat \<Rightarrow> char" where
  "digit_char d = ''0123456789'' ! d"

definition digit_val :: "char \<Rightarrow> nat option" where
  "digit_val c = map_of (zip ''0123456789'' [0 ..< 10]) c"

function str_nat :: "nat \<Rightarrow> string" where
  "str_nat n = (if n < 10 then [digit_char n] else str_nat (n div 10) @ [digit_char (n mod 10)])"
  by pat_completeness auto
termination
  by (relation "measure id") auto

declare str_nat.simps [simp del]

definition str_int :: "int \<Rightarrow> string" where
  "str_int i = (if i < 0 then CHR ''-'' # str_nat (nat (- i)) else str_nat (nat i))"

fun digits_val :: "nat \<Rightarrow> string \<Rightarrow> nat option" where
  "digits_val acc [] = Some acc"
| "digits_val acc (c # cs) =
     (case digit_val c of None \<Rightarrow> None | Some d \<Rightarrow> digits_val (10 * acc + d) cs)"

definition nat_of_str :: "string \<Rightarrow> nat option" where
  "nat_of_str s = (if s = [] then None else digits_val 0 s)"

text \<open>
  \<^verbatim>\<open>int(s)\<close> on a string: an optional sign and at least one decimal digit; \<open>None\<close> is
  \<^verbatim>\<open>ValueError\<close>. (Python also accepts surrounding white space and digit-group
  underscores, which \<^verbatim>\<open>str\<close> never produces; those spellings are not modelled.)
\<close>

definition int_of_str :: "string \<Rightarrow> int option" where
  "int_of_str s =
     (case s of
        [] \<Rightarrow> None
      | c # cs \<Rightarrow>
          if c = CHR ''-'' then map_option (\<lambda>n. - int n) (nat_of_str cs)
          else if c = CHR ''+'' then map_option int (nat_of_str cs)
          else map_option int (nat_of_str s))"

fun py_int :: "pyval \<Rightarrow> error + int" where
  "py_int (PyInt i) = Inr i"
| "py_int (PyStr s) = (case int_of_str s of None \<Rightarrow> Inl ValueError | Some i \<Rightarrow> Inr i)"

subsection \<open>\<^verbatim>\<open>decimal.Decimal\<close>\<close>

text \<open>
  A finite \<^verbatim>\<open>Decimal\<close> is a coefficient and an exponent: \<open>Decimal 999 (-2)\<close> is
  \<^verbatim>\<open>Decimal('9.99')\<close>, and \<open>Decimal 1000 (-2)\<close> is \<^verbatim>\<open>Decimal('10.00')\<close>, which Python
  keeps apart from \<^verbatim>\<open>Decimal('10')\<close>. The special values (NaN, the infinities) and the
  sign of a zero are outside the model. Arithmetic is the exact one: the product with an
  integer multiplies the coefficient, a sum is taken at the smaller exponent. (Python
  rounds a result to the context's precision, 28 digits unless changed; the model is
  Python's arithmetic on the values that need no rounding.)
\<close>

datatype decimal = Decimal (coefficient: int) (exponent: int)




text \<open>
  \<^verbatim>\<open>str(d)\<close>, as \<^verbatim>\<open>Decimal.__str__\<close> writes it: plain notation when the exponent is
  at most 0 and fewer than six zeros would follow the point, scientific notation with one
  digit before the point otherwise.
\<close>

definition str_decimal :: "decimal \<Rightarrow> string" where
  "str_decimal d =
     (let sign = (if coefficient d < 0 then ''-'' else '''');
          ds = str_nat (nat \<bar>coefficient d\<bar>);
          leftdigits = exponent d + int (length ds);
          dotplace = (if exponent d \<le> 0 \<and> - 6 < leftdigits then leftdigits else 1);
          intpart = (if dotplace \<le> 0 then ''0''
                     else if int (length ds) \<le> dotplace
                       then ds @ replicate (nat (dotplace - int (length ds))) CHR ''0''
                     else take (nat dotplace) ds);
          fracpart = (if dotplace \<le> 0 then CHR ''.'' # replicate (nat (- dotplace)) CHR ''0'' @ ds
                      else if int (length ds) \<le> dotplace then ''''
                      else CHR ''.'' # drop (nat dotplace) ds);
          exp = (if leftdigits = dotplace then ''''
                 else CHR ''E'' # (if 0 \<le> leftdigits - dotplace then CHR ''+'' # str_int (leftdigits - dotplace)
                                  else str_int (leftdigits - dotplace)))
      in sign @ intpart @ fracpart @ exp)"

text \<open>
  \<^verbatim>\<open>Decimal(s)\<close> on a string: an optional sign, digits with an optional point, an
  optional exponent; at least one digit. \<open>None\<close> is \<^verbatim>\<open>decimal.InvalidOperation\<close>.
\<close>

definition is_E :: "char \<Rightarrow> bool" where
  "is_E c = (c = CHR ''E'' \<or> c = CHR ''e'')"

definition Decimal_of_str :: "string \<Rightarrow> decimal option" where
  "Decimal_of_str s =
     (let neg = (s \<noteq> [] \<and> hd s = CHR ''-'');
          body = (if s \<noteq> [] \<and> (hd s = CHR ''-'' \<or> hd s = CHR ''+'') then tl s else s);
          mant = takeWhile (\<lambda>c. \<not> is_E c) body;
          etail = dropWhile (\<lambda>c. \<not> is_E c) body;
          intpart = takeWhile (\<lambda>c. c \<noteq> CHR ''.'') mant;
          fracpart = (case dropWhile (\<lambda>c. c \<noteq> CHR ''.'') mant of [] \<Rightarrow> [] | _ # f \<Rightarrow> f);
          exp = (if etail = [] then Some 0 else int_of_str (tl etail))
      in case (nat_of_str (intpart @ fracpart), exp) of
           (Some n, Some e) \<Rightarrow>
             Some (Decimal (if neg then - int n else int n) (e - int (length fracpart)))
         | _ \<Rightarrow> None)"

fun py_Decimal :: "pyval \<Rightarrow> error + decimal" where
  "py_Decimal (PyInt i) = Inr (Decimal i 0)"
| "py_Decimal (PyStr s) = (case Decimal_of_str s of None \<Rightarrow> Inl InvalidOperation | Some d \<Rightarrow> Inr d)"



section \<open>Products, the product tables and the settings\<close>

text \<open>
  A product is an instance of a Django model, owned by the application. The cart reads
  three things of it: the module and the name of its class (\<^verbatim>\<open>get_product_model_path\<close>)
  and its primary key, an integer as in the repository's own models
  (\<^verbatim>\<open>custom_id = models.IntegerField(primary_key=True)\<close> in \<^verbatim>\<open>tests/models.py\<close>). Django
  compares two instances by class and primary key, which is equality of these records;
  that is what \<^verbatim>\<open>product in self.products\<close> tests.
\<close>

record Product =
  model_module :: string
  model_name :: string
  pk :: int

text \<open>
  What the cart finds outside itself: the importable modules with their model classes
  (a class stands for its rows, \<^verbatim>\<open>Model.objects.all()\<close>), the constant
  \<^verbatim>\<open>carton_settings.CART_SESSION_KEY\<close> and the optional setting
  \<^verbatim>\<open>CART_PRODUCT_LOOKUP\<close> (the lookup parameters, as the predicate they select by).
\<close>

record Env =
  modules :: "(string \<times> (string \<times> Product list) list) list"
  CART_SESSION_KEY :: string
  CART_PRODUCT_LOOKUP :: "(Product \<Rightarrow> bool) option"

definition get_product_model_path :: "Product \<Rightarrow> string" where
  "get_product_model_path model = model_module model @ ''.'' @ model_name model"

text \<open>\<^verbatim>\<open>path.rsplit('.', 1)\<close>, unpacked into two names: \<open>None\<close> when the path has no dot.\<close>

definition rsplit_dot :: "string \<Rightarrow> (string \<times> string) option" where
  "rsplit_dot path =
     (if CHR ''.'' \<in> set path
      then Some (rev (tl (dropWhile (\<lambda>c. c \<noteq> CHR ''.'') (rev path))),
                 rev (takeWhile (\<lambda>c. c \<noteq> CHR ''.'') (rev path)))
      else None)"

definition get_product_model :: "Env \<Rightarrow> string \<Rightarrow> error + Product list" where
  "get_product_model env path =
     (case rsplit_dot path of
        None \<Rightarrow> Inl ValueError
      | Some (mod_path, cls) \<Rightarrow>
          (case map_of (modules env) mod_path of
             None \<Rightarrow> Inl ImportError
           | Some attrs \<Rightarrow>
               (case map_of attrs cls of
                  None \<Rightarrow> Inl AttributeError
                | Some Model \<Rightarrow> Inr Model)))"

definition filter_products :: "Env \<Rightarrow> Product list \<Rightarrow> Product list" where
  "filter_products env queryset =
     (case CART_PRODUCT_LOOKUP env of
        None \<Rightarrow> queryset
      | Some lookup_parameters \<Rightarrow> filter lookup_parameters queryset)"

text \<open>
  \<^verbatim>\<open>queryset.filter(pk__in=keys)\<close>: Django converts every key to the type of the primary
  key (\<^verbatim>\<open>int\<close>, raising \<^verbatim>\<open>ValueError\<close> on a string that spells no integer) and
  selects the rows whose key is among them.
\<close>

definition filter_pk_in :: "string list \<Rightarrow> Product list \<Rightarrow> error + Product list" where
  "filter_pk_in keys queryset =
     (case those (map int_of_str keys) of
        None \<Rightarrow> Inl ValueError
      | Some pks \<Rightarrow> Inr (filter (\<lambda>p. pk p \<in> set pks) queryset))"

section \<open>CartItem\<close>

record CartItem =
  product :: Product
  quantity :: int
  price :: decimal

text \<open>
  \<^verbatim>\<open>CartItem.__init__\<close>: \<^verbatim>\<open>int(quantity)\<close> and \<^verbatim>\<open>Decimal(str(price))\<close>. The price
  that reaches it is a number; it is given as the decimal that \<^verbatim>\<open>str\<close> spells.
\<close>

definition CartItem_init :: "Product \<Rightarrow> pyval \<Rightarrow> decimal \<Rightarrow> error + CartItem" where
  "CartItem_init p q pr =
     (case py_int q of
        Inl e \<Rightarrow> Inl e
      | Inr n \<Rightarrow>
          (case Decimal_of_str (str_decimal pr) of
             None \<Rightarrow> Inl InvalidOperation
           | Some d \<Rightarrow> Inr \<lparr>product = p, quantity = n, price = d\<rparr>))"

type_synonym item_dict = "(string \<times> pyval) list"

definition to_dict :: "CartItem \<Rightarrow> item_dict" where
  "to_dict item =
     [(''product_pk'', PyInt (pk (product item))),
      (''quantity'', PyInt (quantity item)),
      (''price'', PyStr (str_decimal (price item)))]"


section \<open>Cart\<close>

text \<open>
  The session is the mapping the cart reads and writes, with its \<^verbatim>\<open>modified\<close> flag.
  The entry under the cart's key is the nested dictionary of \<^verbatim>\<open>cart_serializable\<close>:
  model path, then \<^verbatim>\<open>str(pk)\<close>, then the item's dictionary.
\<close>

type_synonym cart_repr = "(string \<times> (string \<times> item_dict) list) list"

record Session =
  data :: "(string \<times> cart_repr) list"
  modified :: bool

text \<open>
  \<^verbatim>\<open>_items_dict\<close> maps a model path to a dictionary from key to item. It starts as a
  \<^verbatim>\<open>defaultdict(dict)\<close>, and \<^verbatim>\<open>clear\<close> replaces it by a plain \<^verbatim>\<open>{}\<close>:
  \<open>default_factory\<close> says which of the two it is.
\<close>

record Cart =
  items_dict :: "(string \<times> (pyval \<times> CartItem) list) list"
  default_factory :: bool
  session :: Session
  session_key :: string

definition items :: "Cart \<Rightarrow> CartItem list" where
  "items c = concat (map (\<lambda>(model, d). map snd d) (items_dict c))"

definition products :: "Cart \<Rightarrow> Product list" where
  "products c = map product (items c)"

definition cart_serializable :: "Cart \<Rightarrow> cart_repr" where
  "cart_serializable c =
     foldl (\<lambda>cart_representation item.
              let model = get_product_model_path (product item);
                  inner = (case map_of cart_representation model of None \<Rightarrow> [] | Some d \<Rightarrow> d)
              in AList.update model
                   (AList.update (str_int (pk (product item))) (to_dict item) inner)
                   cart_representation)
           [] (items c)"

definition items_serializable :: "Cart \<Rightarrow> (string \<times> (string \<times> item_dict) list) list" where
  "items_serializable c = cart_serializable c"


definition unique_count :: "Cart \<Rightarrow> nat" where
  "unique_count c = length (concat (map (\<lambda>(model, d). map snd d) (items_dict c)))"

definition is_empty :: "Cart \<Rightarrow> bool" where
  "is_empty c = (unique_count c = 0)"


definition update_session :: "Cart \<Rightarrow> Cart" where
  "update_session c =
     c\<lparr>session := \<lparr>data = AList.update (session_key c) (cart_serializable c) (data (session c)),
                    modified = True\<rparr>\<rparr>"

text \<open>
  \<^verbatim>\<open>self._items_dict[model]\<close>: the inner dictionary; a \<^verbatim>\<open>defaultdict\<close> that lacks
  the key stores and returns a new empty one, a plain dictionary raises \<^verbatim>\<open>KeyError\<close>.
  An operation that raises returns the error with the cart as the exception leaves it.
\<close>

definition items_dict_getitem ::
  "Cart \<Rightarrow> string \<Rightarrow> (error \<times> Cart) + (Cart \<times> (pyval \<times> CartItem) list)" where
  "items_dict_getitem c model =
     (case map_of (items_dict c) model of
        Some d \<Rightarrow> Inr (c, d)
      | None \<Rightarrow>
          if default_factory c then Inr (c\<lparr>items_dict := items_dict c @ [(model, [])]\<rparr>, [])
          else Inl (KeyError, c))"

definition set_inner :: "Cart \<Rightarrow> string \<Rightarrow> (pyval \<times> CartItem) list \<Rightarrow> Cart" where
  "set_inner c model d = c\<lparr>items_dict := AList.update model d (items_dict c)\<rparr>"

definition add :: "Cart \<Rightarrow> Product \<Rightarrow> decimal option \<Rightarrow> int \<Rightarrow> (error \<times> Cart) + Cart" where
  "add c p pr q =
     (let model = get_product_model_path p in
      if q < 1 then Inl (ValueError, c)
      else if p \<in> set (products c) then
        (case items_dict_getitem c model of
           Inl e \<Rightarrow> Inl e
         | Inr (c1, d) \<Rightarrow>
             (case map_of d (PyInt (pk p)) of
                None \<Rightarrow> Inl (KeyError, c1)
              | Some item \<Rightarrow>
                  Inr (update_session
                         (set_inner c1 model
                            (AList.update (PyInt (pk p)) (item\<lparr>quantity := quantity item + q\<rparr>) d)))))
      else
        (case pr of
           None \<Rightarrow> Inl (ValueError, c)
         | Some price_arg \<Rightarrow>
             (case CartItem_init p (PyInt q) price_arg of
                Inl e \<Rightarrow> Inl (e, c)
              | Inr item \<Rightarrow>
                  (case items_dict_getitem c model of
                     Inl e \<Rightarrow> Inl e
                   | Inr (c1, d) \<Rightarrow>
                       Inr (update_session
                              (set_inner c1 model (AList.update (PyInt (pk p)) item d)))))))"

definition remove :: "Cart \<Rightarrow> Product \<Rightarrow> (error \<times> Cart) + Cart" where
  "remove c p =
     (let model = get_product_model_path p in
      if p \<in> set (products c) then
        (case items_dict_getitem c model of
           Inl e \<Rightarrow> Inl e
         | Inr (c1, d) \<Rightarrow>
             (case map_of d (PyInt (pk p)) of
                None \<Rightarrow> Inl (KeyError, c1)
              | Some item \<Rightarrow>
                  Inr (update_session (set_inner c1 model (AList.delete (PyInt (pk p)) d)))))
      else Inr c)"

definition remove_single :: "Cart \<Rightarrow> Product \<Rightarrow> (error \<times> Cart) + Cart" where
  "remove_single c p =
     (let model = get_product_model_path p in
      if p \<in> set (products c) then
        (case items_dict_getitem c model of
           Inl e \<Rightarrow> Inl e
         | Inr (c1, d) \<Rightarrow>
             (case map_of d (PyInt (pk p)) of
                None \<Rightarrow> Inl (KeyError, c1)
              | Some item \<Rightarrow>
                  if quantity item \<le> 1
                  then Inr (update_session (set_inner c1 model (AList.delete (PyInt (pk p)) d)))
                  else Inr (update_session
                              (set_inner c1 model
                                 (AList.update (PyInt (pk p)) (item\<lparr>quantity := quantity item - 1\<rparr>) d)))))
      else Inr c)"

definition clear :: "Cart \<Rightarrow> Cart" where
  "clear c = update_session (c\<lparr>items_dict := [], default_factory := False\<rparr>)"

definition set_quantity :: "Cart \<Rightarrow> Product \<Rightarrow> int \<Rightarrow> (error \<times> Cart) + Cart" where
  "set_quantity c p q =
     (let model = get_product_model_path p in
      if q < 0 then Inl (ValueError, c)
      else if p \<in> set (products c) then
        (case items_dict_getitem c model of
           Inl e \<Rightarrow> Inl e
         | Inr (c1, d) \<Rightarrow>
             (case map_of d (PyInt (pk p)) of
                None \<Rightarrow> Inl (KeyError, c1)
              | Some item \<Rightarrow>
                  (let item1 = item\<lparr>quantity := q\<rparr>;
                       d1 = AList.update (PyInt (pk p)) item1 d
                   in if quantity item1 < 1
                      then Inr (update_session (set_inner c1 model (AList.delete (PyInt (pk p)) d1)))
                      else Inr (update_session (set_inner c1 model d1)))))
      else Inr c)"

subsection \<open>Construction from the session\<close>

text \<open>
  The inner loop of \<^verbatim>\<open>Cart.__init__\<close>, over the products that the query returned for
  one model: the item's dictionary is looked up under \<^verbatim>\<open>str(product.pk)\<close> and the
  rebuilt item is stored under that same string.
\<close>

fun load_products ::
  "cart_repr \<Rightarrow> string \<Rightarrow> Product list \<Rightarrow> (string \<times> (pyval \<times> CartItem) list) list
     \<Rightarrow> error + (string \<times> (pyval \<times> CartItem) list) list" where
  "load_products cart_representation model [] idict = Inr idict"
| "load_products cart_representation model (p # ps) idict =
     (case map_of cart_representation model of
        None \<Rightarrow> Inl KeyError
      | Some its \<Rightarrow>
     (case map_of its (str_int (pk p)) of
        None \<Rightarrow> Inl KeyError
      | Some item \<Rightarrow>
     (case map_of item ''quantity'' of
        None \<Rightarrow> Inl KeyError
      | Some q \<Rightarrow>
     (case map_of item ''price'' of
        None \<Rightarrow> Inl KeyError
      | Some pr \<Rightarrow>
     (case py_Decimal pr of
        Inl e \<Rightarrow> Inl e
      | Inr dpr \<Rightarrow>
     (case CartItem_init p q dpr of
        Inl e \<Rightarrow> Inl e
      | Inr ci \<Rightarrow>
          load_products cart_representation model ps
            (AList.update model
               (AList.update (PyStr (str_int (pk p))) ci
                  (case map_of idict model of None \<Rightarrow> [] | Some d \<Rightarrow> d))
               idict)))))))"

text \<open>The outer loop, over the entries \<^verbatim>\<open>(model, items)\<close> of the stored representation.\<close>

fun load_models ::
  "Env \<Rightarrow> cart_repr \<Rightarrow> cart_repr \<Rightarrow> (string \<times> (pyval \<times> CartItem) list) list
     \<Rightarrow> error + (string \<times> (pyval \<times> CartItem) list) list" where
  "load_models env cart_representation [] idict = Inr idict"
| "load_models env cart_representation ((model, its) # rest) idict =
     (case get_product_model env model of
        Inl e \<Rightarrow> Inl e
      | Inr Model \<Rightarrow>
     (case filter_pk_in (map fst its) (filter_products env Model) of
        Inl e \<Rightarrow> Inl e
      | Inr ps \<Rightarrow>
     (case load_products cart_representation model ps idict of
        Inl e \<Rightarrow> Inl e
      | Inr idict1 \<Rightarrow> load_models env cart_representation rest idict1)))"

text \<open>
  \<^verbatim>\<open>Cart(session, session_key)\<close>; \<open>None\<close> and the empty string are the key arguments
  that \<^verbatim>\<open>session_key or carton_settings.CART_SESSION_KEY\<close> replaces by the constant.
\<close>

definition session_key_or_default :: "Env \<Rightarrow> string option \<Rightarrow> string" where
  "session_key_or_default env key_arg =
     (case key_arg of
        None \<Rightarrow> CART_SESSION_KEY env
      | Some k \<Rightarrow> if k = [] then CART_SESSION_KEY env else k)"

definition Cart_init :: "Env \<Rightarrow> Session \<Rightarrow> string option \<Rightarrow> error + Cart" where
  "Cart_init env sess key_arg =
     (let key = session_key_or_default env key_arg
      in case map_of (data sess) key of
           None \<Rightarrow>
             Inr \<lparr>items_dict = [], default_factory = True, session = sess, session_key = key\<rparr>
         | Some cart_representation \<Rightarrow>
             (case load_models env cart_representation cart_representation [] of
                Inl e \<Rightarrow> Inl e
              | Inr idict \<Rightarrow>
                  Inr \<lparr>items_dict = idict, default_factory = True, session = sess,
                       session_key = key\<rparr>))"


section \<open>Sequences of operations\<close>

text \<open>
  The mutating operations as data, to speak of every sequence of calls on one cart object.
  A call that raises leaves the object in the state the exception found it in, and the
  next call goes on from there.
\<close>

datatype cart_op =
    Add Product "decimal option" int
  | Remove Product
  | Remove_single Product
  | Set_quantity Product int
  | Clear

fun apply_op :: "Cart \<Rightarrow> cart_op \<Rightarrow> (error \<times> Cart) + Cart" where
  "apply_op c (Add p pr q) = add c p pr q"
| "apply_op c (Remove p) = remove c p"
| "apply_op c (Remove_single p) = remove_single c p"
| "apply_op c (Set_quantity p q) = set_quantity c p q"
| "apply_op c Clear = Inr (clear c)"

fun cart_after :: "(error \<times> Cart) + Cart \<Rightarrow> Cart" where
  "cart_after (Inl (e, c)) = c"
| "cart_after (Inr c) = c"

definition run_ops :: "Cart \<Rightarrow> cart_op list \<Rightarrow> Cart" where
  "run_ops c ops = foldl (\<lambda>c1 op. cart_after (apply_op c1 op)) c ops"

section \<open>Notions used in the statements\<close>

text \<open>The entry of a two-level dictionary under a model and a key.\<close>

definition lookup2 :: "('a \<times> ('b \<times> 'c) list) list \<Rightarrow> 'a \<Rightarrow> 'b \<Rightarrow> 'c option" where
  "lookup2 dd m k = (case map_of dd m of None \<Rightarrow> None | Some d \<Rightarrow> map_of d k)"

text \<open>\<^verbatim>\<open>dd[m][k] = v\<close> on a \<^verbatim>\<open>defaultdict(dict)\<close>.\<close>

definition upd2 ::
  "('a \<times> ('b \<times> 'c) list) list \<Rightarrow> 'a \<Rightarrow> 'b \<Rightarrow> 'c \<Rightarrow> ('a \<times> ('b \<times> 'c) list) list" where
  "upd2 dd m k v =
     AList.update m (AList.update k v (case map_of dd m of None \<Rightarrow> [] | Some d \<Rightarrow> d)) dd"

text \<open>An entry that sits under its own product's model path and primary key.\<close>

definition own :: "string \<Rightarrow> pyval \<Rightarrow> CartItem \<Rightarrow> bool" where
  "own m k item =
     (m = get_product_model_path (product item) \<and> k = PyInt (pk (product item))
      \<and> 1 \<le> quantity item)"

text \<open>The pair of model and primary key an item stands for.\<close>

definition item_key :: "CartItem \<Rightarrow> string \<times> int" where
  "item_key item = (get_product_model_path (product item), pk (product item))"

text \<open>A two-level association list is a dictionary of dictionaries: no key occurs twice.\<close>

definition wf_dd :: "('a \<times> ('b \<times> 'c) list) list \<Rightarrow> bool" where
  "wf_dd dd = (distinct (map fst dd) \<and> list_all (\<lambda>(m, d). distinct (map fst d)) dd)"

text \<open>
  The state every sequence of operations keeps a cart in that was built without stored
  items: each item sits under the path of its own product's model and under that
  product's primary key, with a quantity of at least 1.
\<close>

definition own_keys :: "Cart \<Rightarrow> bool" where
  "own_keys c =
     (wf_dd (items_dict c) \<and>
      list_all (\<lambda>(m, d). list_all (\<lambda>(k, item).
          m = get_product_model_path (product item) \<and> k = PyInt (pk (product item))
          \<and> 1 \<le> quantity item) d) (items_dict c))"

text \<open>A product is live when its model can be imported and its row passes the lookup.\<close>

definition live :: "Env \<Rightarrow> Product \<Rightarrow> bool" where
  "live env p =
     (case get_product_model env (get_product_model_path p) of
        Inl e \<Rightarrow> False
      | Inr Model \<Rightarrow> p \<in> set (filter_products env Model))"

text \<open>
  The model of every product of the cart can be imported, its table holds rows of that
  model only, and class names have no dot.
\<close>

definition models_present :: "Env \<Rightarrow> Cart \<Rightarrow> bool" where
  "models_present env c =
     list_all (\<lambda>p. CHR ''.'' \<notin> set (model_name p) \<and>
        (case get_product_model env (get_product_model_path p) of
           Inl e \<Rightarrow> False
         | Inr Model \<Rightarrow>
             list_all (\<lambda>q. model_module q = model_module p \<and> model_name q = model_name p) Model))
       (products c)"

text \<open>
  For the reload: the item of the cart that holds a product; the filtered rows of a model
  path (none when the model cannot be imported); the rows whose key is spelled by a key
  of the stored dictionary; and the assignments the two loops of \<^verbatim>\<open>Cart.__init__\<close>
  make, one per model and selected row.
\<close>

definition item_of :: "Cart \<Rightarrow> Product \<Rightarrow> CartItem" where
  "item_of c q = the (find (\<lambda>item. product item = q) (items c))"

definition rows :: "Env \<Rightarrow> string \<Rightarrow> Product list" where
  "rows env m =
     (case get_product_model env m of Inl e \<Rightarrow> [] | Inr Model \<Rightarrow> filter_products env Model)"

definition sel :: "Env \<Rightarrow> string \<Rightarrow> (string \<times> 'a) list \<Rightarrow> Product list" where
  "sel env m d = filter (\<lambda>q. str_int (pk q) \<in> fst ` set d) (rows env m)"

definition reload_step ::
  "Cart \<Rightarrow> (string \<times> (pyval \<times> CartItem) list) list \<Rightarrow> string \<times> Product
     \<Rightarrow> (string \<times> (pyval \<times> CartItem) list) list" where
  "reload_step c dd mq = upd2 dd (fst mq) (PyStr (str_int (pk (snd mq)))) (item_of c (snd mq))"

definition reload_list ::
  "Env \<Rightarrow> (string \<times> (string \<times> 'a) list) list \<Rightarrow> (string \<times> Product) list" where
  "reload_list env todo = concat (map (\<lambda>(m, d). map (Pair m) (sel env m d)) todo)"

definition all_digits :: "string \<Rightarrow> bool" where
  "all_digits s = list_all (\<lambda>c. digit_val c \<noteq> None) s"

section \<open>Concrete values\<close>

text \<open>A shop with two models; product 1 is in its table, ticket 2 has been deleted.\<close>

definition ex_product :: Product where
  "ex_product = \<lparr>model_module = ''shop.models'', model_name = ''Product'', pk = 1\<rparr>"

definition ex_ticket :: Product where
  "ex_ticket = \<lparr>model_module = ''shop.models'', model_name = ''Ticket'', pk = 2\<rparr>"

definition ex_env :: Env where
  "ex_env = \<lparr>modules = [(''shop.models'', [(''Product'', [ex_product]), (''Ticket'', [])])],
             CART_SESSION_KEY = ''CART'', CART_PRODUCT_LOOKUP = None\<rparr>"

definition ex_session :: Session where
  "ex_session = \<lparr>data = [], modified = False\<rparr>"

text \<open>\<^verbatim>\<open>Cart(session)\<close> on the empty session.\<close>

definition new_cart :: Cart where
  "new_cart = \<lparr>items_dict = [], default_factory = True, session = ex_session,
               session_key = ''CART''\<rparr>"

text \<open>The session after \<^verbatim>\<open>add(product, Decimal('9.99'), 2)\<close> on the new cart.\<close>

definition stored_session :: Session where
  "stored_session =
     \<lparr>data = [(''CART'', [(''shop.models.Product'',
                 [(''1'', [(''product_pk'', PyInt 1), (''quantity'', PyInt 2),
                           (''price'', PyStr ''9.99'')])])])],
      modified = True\<rparr>"

text \<open>The cart after that call, and after \<^verbatim>\<open>add(ticket, Decimal('5'), 1)\<close> on top.\<close>

definition added_cart :: Cart where
  "added_cart =
     \<lparr>items_dict = [(''shop.models.Product'',
         [(PyInt 1, \<lparr>product = ex_product, quantity = 2, price = Decimal 999 (- 2)\<rparr>)])],
      default_factory = True, session = stored_session, session_key = ''CART''\<rparr>"

definition two_item_cart :: Cart where
  "two_item_cart =
     \<lparr>items_dict =
        [(''shop.models.Product'',
          [(PyInt 1, \<lparr>product = ex_product, quantity = 2, price = Decimal 999 (- 2)\<rparr>)]),
         (''shop.models.Ticket'',
          [(PyInt 2, \<lparr>product = ex_ticket, quantity = 1, price = Decimal 5 0\<rparr>)])],
      default_factory = True,
      session =
        \<lparr>data = [(''CART'',
           [(''shop.models.Product'',
             [(''1'', [(''product_pk'', PyInt 1), (''quantity'', PyInt 2),
                       (''price'', PyStr ''9.99'')])]),
            (''shop.models.Ticket'',
             [(''2'', [(''product_pk'', PyInt 2), (''quantity'', PyInt 1),
                       (''price'', PyStr ''5'')])])])],
         modified = True\<rparr>,
      session_key = ''CART''\<rparr>"

definition ex_ops :: "cart_op list" where
  "ex_ops = [Add ex_product (Some (Decimal 999 (- 2))) 2,
             Add ex_ticket (Some (Decimal 5 0)) 1,
             Add ex_ticket None 0]"

text \<open>The cart that the next request builds from that session.\<close>

definition reloaded_cart :: Cart where
  "reloaded_cart =
     \<lparr>items_dict = [(''shop.models.Product'',
         [(PyStr ''1'', \<lparr>product = ex_product, quantity = 2, price = Decimal 999 (- 2)\<rparr>)])],
      default_factory = True, session = stored_session, session_key = ''CART''\<rparr>"

section \<open>Facts about the string conversions\<close>

lemma digit_val_digit_char: "d < 10 \<Longrightarrow> digit_val (digit_char d) = Some d"
proof -
  assume "d < 10"
  then have "d \<in> {0,1,2,3,4,5,6,7,8,9}" by auto
  then show ?thesis
    by (auto simp: digit_val_def digit_char_def upt_conv_Cons)
qed

lemma digit_val_Some_lt: "digit_val c = Some d \<Longrightarrow> d < 10"
  by (auto simp: digit_val_def upt_conv_Cons split: if_splits)

lemma digits_val_append:
  "digits_val acc (xs @ ys) = (case digits_val acc xs of None \<Rightarrow> None | Some a \<Rightarrow> digits_val a ys)"
  by (induction xs arbitrary: acc) (auto split: option.splits)

lemma digits_val_str_nat: "digits_val 0 (str_nat n) = Some n"
proof (induction n rule: str_nat.induct)
  case (1 n)
  show ?case
  proof (cases "n < 10")
    case True
    then show ?thesis by (simp add: str_nat.simps[of n] digit_val_digit_char)
  next
    case False
    with 1 have "digits_val 0 (str_nat (n div 10)) = Some (n div 10)" by simp
    with False show ?thesis
      by (simp add: str_nat.simps[of n] digits_val_append digit_val_digit_char)
  qed
qed

lemma str_nat_nonempty: "str_nat n \<noteq> []"
  by (subst str_nat.simps) simp

lemma nat_of_str_str_nat: "nat_of_str (str_nat n) = Some n"
  by (simp add: nat_of_str_def str_nat_nonempty digits_val_str_nat)

lemma is_digit_str_nat: "c \<in> set (str_nat n) \<Longrightarrow> digit_val c \<noteq> None"
proof (induction n rule: str_nat.induct)
  case (1 n)
  then show ?case
    by (cases "n < 10") (auto simp: str_nat.simps[of n] digit_val_digit_char)
qed

lemma digit_val_sign: "digit_val CHR ''-'' = None" "digit_val CHR ''+'' = None"
  "digit_val CHR ''.'' = None" "digit_val CHR ''E'' = None" "digit_val CHR ''e'' = None"
  by (simp_all add: digit_val_def upt_conv_Cons)

lemma hd_str_nat: "hd (str_nat n) \<noteq> CHR ''-'' \<and> hd (str_nat n) \<noteq> CHR ''+''"
  using is_digit_str_nat[of "hd (str_nat n)" n] str_nat_nonempty[of n] digit_val_sign
  by (metis hd_in_set)

lemma int_of_str_str_nat: "int_of_str (str_nat n) = Some (int n)"
  using hd_str_nat[of n] str_nat_nonempty[of n] nat_of_str_str_nat[of n]
  by (cases "str_nat n") (auto simp: int_of_str_def)

lemma int_of_str_str_int: "int_of_str (str_int i) = Some i"
proof (cases "i < 0")
  case True
  then show ?thesis by (simp add: str_int_def int_of_str_def nat_of_str_str_nat)
next
  case False
  then show ?thesis by (simp add: str_int_def int_of_str_str_nat)
qed

lemma str_int_inj: "str_int i = str_int j \<longleftrightarrow> i = j"
  by (metis int_of_str_str_int option.inject)

lemma rsplit_dot_join:
  assumes "CHR ''.'' \<notin> set cls"
  shows "rsplit_dot (m @ ''.'' @ cls) = Some (m, cls)"
proof -
  have *: "\<And>x. x \<in> set (rev cls) \<Longrightarrow> x \<noteq> CHR ''.''"
    using assms by auto
  have "takeWhile (\<lambda>c. c \<noteq> CHR ''.'') (rev cls @ CHR ''.'' # rev m)
          = rev cls @ takeWhile (\<lambda>c. c \<noteq> CHR ''.'') (CHR ''.'' # rev m)"
    by (rule takeWhile_append2) (rule *)
  moreover have "dropWhile (\<lambda>c. c \<noteq> CHR ''.'') (rev cls @ CHR ''.'' # rev m)
          = dropWhile (\<lambda>c. c \<noteq> CHR ''.'') (CHR ''.'' # rev m)"
    by (rule dropWhile_append2) (rule *)
  ultimately show ?thesis
    by (simp add: rsplit_dot_def)
qed

lemma all_digits_simps [simp]:
  "all_digits []" "all_digits (c # cs) = (digit_val c \<noteq> None \<and> all_digits cs)"
  "all_digits (xs @ ys) = (all_digits xs \<and> all_digits ys)"
  by (auto simp: all_digits_def)

lemma all_digits_str_nat: "all_digits (str_nat n)"
  using is_digit_str_nat[of _ n] by (auto simp: all_digits_def list_all_iff)

lemma all_digits_mem: "all_digits s \<Longrightarrow> c \<in> set s \<Longrightarrow> digit_val c \<noteq> None"
  by (auto simp: all_digits_def list_all_iff)

lemma all_digits_take_drop: "all_digits s \<Longrightarrow> all_digits (take k s) \<and> all_digits (drop k s)"
  by (auto simp: all_digits_def list_all_iff dest: in_set_takeD in_set_dropD)

lemma all_digits_replicate_0: "all_digits (replicate k CHR ''0'')"
  by (auto simp: all_digits_def list_all_iff digit_val_def)

lemma digit_not_special:
  assumes "digit_val c \<noteq> None"
  shows "c \<noteq> CHR ''.''" "\<not> is_E c" "c \<noteq> CHR ''-''" "c \<noteq> CHR ''+''"
  using assms digit_val_sign by (auto simp: is_E_def)

lemma split_exp:
  assumes "\<And>c. c \<in> set m \<Longrightarrow> \<not> is_E c" and "ex = [] \<or> is_E (hd ex)"
  shows "takeWhile (\<lambda>c. \<not> is_E c) (m @ ex) = m" "dropWhile (\<lambda>c. \<not> is_E c) (m @ ex) = ex"
proof -
  have t: "takeWhile (\<lambda>c. \<not> is_E c) (m @ ex) = m @ takeWhile (\<lambda>c. \<not> is_E c) ex"
    by (rule takeWhile_append2) (rule assms(1))
  have d: "dropWhile (\<lambda>c. \<not> is_E c) (m @ ex) = dropWhile (\<lambda>c. \<not> is_E c) ex"
    by (rule dropWhile_append2) (rule assms(1))
  from assms(2) show "takeWhile (\<lambda>c. \<not> is_E c) (m @ ex) = m"
    unfolding t by (cases ex) auto
  from assms(2) show "dropWhile (\<lambda>c. \<not> is_E c) (m @ ex) = ex"
    unfolding d by (cases ex) auto
qed

lemma split_dot:
  assumes "all_digits ip" and "fr = [] \<or> hd fr = CHR ''.''"
  shows "takeWhile (\<lambda>c. c \<noteq> CHR ''.'') (ip @ fr) = ip"
        "dropWhile (\<lambda>c. c \<noteq> CHR ''.'') (ip @ fr) = fr"
proof -
  have nd: "\<And>c. c \<in> set ip \<Longrightarrow> c \<noteq> CHR ''.''"
    using assms(1) all_digits_mem digit_not_special(1) by blast
  have t: "takeWhile (\<lambda>c. c \<noteq> CHR ''.'') (ip @ fr) = ip @ takeWhile (\<lambda>c. c \<noteq> CHR ''.'') fr"
    by (rule takeWhile_append2) (rule nd)
  have d: "dropWhile (\<lambda>c. c \<noteq> CHR ''.'') (ip @ fr) = dropWhile (\<lambda>c. c \<noteq> CHR ''.'') fr"
    by (rule dropWhile_append2) (rule nd)
  from assms(2) show "takeWhile (\<lambda>c. c \<noteq> CHR ''.'') (ip @ fr) = ip"
    unfolding t by (cases fr) auto
  from assms(2) show "dropWhile (\<lambda>c. c \<noteq> CHR ''.'') (ip @ fr) = fr"
    unfolding d by (cases fr) auto
qed

lemma Decimal_of_str_shape:
  assumes ip: "all_digits ip" "ip \<noteq> []" and f: "all_digits f"
    and fr: "fr = [] \<and> f = [] \<or> fr = CHR ''.'' # f"
    and n: "nat_of_str (ip @ f) = Some n"
    and ex: "ex = [] \<and> x = 0 \<or> (\<exists>t. ex = CHR ''E'' # t \<and> int_of_str t = Some x)"
  shows "Decimal_of_str ((if neg then ''-'' else '''') @ ip @ fr @ ex)
           = Some (Decimal (if neg then - int n else int n) (x - int (length f)))"
proof -
  let ?s = "(if neg then ''-'' else '''') @ ip @ fr @ ex"
  have hd_ip: "hd ip \<noteq> CHR ''-''" "hd ip \<noteq> CHR ''+''"
    using ip all_digits_mem[of ip "hd ip"] digit_not_special by auto
  have s_ne: "?s \<noteq> []" using ip by simp
  have neg: "(?s \<noteq> [] \<and> hd ?s = CHR ''-'') = neg"
    using ip hd_ip by (cases ip) auto
  have body: "(if ?s \<noteq> [] \<and> (hd ?s = CHR ''-'' \<or> hd ?s = CHR ''+'') then tl ?s else ?s) = (ip @ fr) @ ex"
    using ip hd_ip by (cases ip) auto
  have noE: "\<not> is_E c" if "c \<in> set (ip @ fr)" for c
  proof -
    from that fr have "c \<in> set ip \<or> c \<in> set f \<or> c = CHR ''.''" by auto
    then show ?thesis
      using all_digits_mem[OF ip(1)] all_digits_mem[OF f] digit_not_special(2)[of c]
      by (auto simp: is_E_def)
  qed
  have exE: "ex = [] \<or> is_E (hd ex)" using ex by (auto simp: is_E_def)
  have frd: "fr = [] \<or> hd fr = CHR ''.''" using fr by auto
  note se = split_exp[OF noE exE]
  note sd = split_dot[OF ip(1) frd]
  have fp: "(case fr of [] \<Rightarrow> [] | _ # g \<Rightarrow> g) = f" using fr by auto
  have xp: "(if ex = [] then Some 0 else int_of_str (tl ex)) = Some x" using ex by auto
  show ?thesis
    apply (simp only: Decimal_of_str_def Let_def)
    apply (simp only: neg body)
    apply (simp only: se)
    apply (simp only: sd)
    apply (simp only: fp xp n)
    apply simp
    done
qed

lemma digits_val_zeros: "digits_val 0 (replicate k CHR ''0'' @ xs) = digits_val 0 xs"
  by (induction k) (simp_all add: digit_val_def upt_conv_Cons)

lemma int_of_str_signed:
  "int_of_str (if 0 \<le> x then CHR ''+'' # str_int x else str_int x) = Some x"
  by (auto simp: int_of_str_def str_int_def nat_of_str_str_nat)

lemma Decimal_of_str_str_decimal: "Decimal_of_str (str_decimal d) = Some d"
proof -
  obtain c e where d: "d = Decimal c e" by (cases d)
  define ds where "ds = str_nat (nat \<bar>c\<bar>)"
  define L where "L = int (length ds)"
  have ds: "all_digits ds" "ds \<noteq> []" "digits_val 0 ds = Some (nat \<bar>c\<bar>)"
    by (simp_all add: ds_def all_digits_str_nat str_nat_nonempty digits_val_str_nat)
  have Lpos: "0 < L" using ds(2) by (simp add: L_def)
  define leftdigits where "leftdigits = e + L"
  define dotplace where "dotplace = (if e \<le> 0 \<and> - 6 < leftdigits then leftdigits else 1)"
  define ip where "ip = (if dotplace \<le> 0 then ''0''
                     else if L \<le> dotplace then ds @ replicate (nat (dotplace - L)) CHR ''0''
                     else take (nat dotplace) ds)"
  define f where "f = (if dotplace \<le> 0 then replicate (nat (- dotplace)) CHR ''0'' @ ds
                      else if L \<le> dotplace then ''''
                      else drop (nat dotplace) ds)"
  define fr where "fr = (if dotplace \<le> 0 then CHR ''.'' # f
                      else if L \<le> dotplace then ''''
                      else CHR ''.'' # f)"
  define x where "x = leftdigits - dotplace"
  define ex where "ex = (if x = 0 then ''''
                 else CHR ''E'' # (if 0 \<le> x then CHR ''+'' # str_int x else str_int x))"
  have str: "str_decimal d = (if c < 0 then ''-'' else '''') @ ip @ fr @ ex"
    unfolding str_decimal_def d Let_def ex_def x_def fr_def f_def ip_def dotplace_def leftdigits_def L_def ds_def
    by simp
  have dp_le: "dotplace = L" if "L \<le> dotplace"
    using Lpos that unfolding dotplace_def leftdigits_def
    by (cases "e \<le> 0 \<and> - 6 < e + L") auto
  have 1: "all_digits ip" "ip \<noteq> []"
  proof -
    have "all_digits ''0''" by (simp add: digit_val_def upt_conv_Cons)
    moreover have "all_digits (ds @ replicate (nat (dotplace - L)) CHR ''0'')"
      using ds(1) all_digits_replicate_0 by simp
    moreover have "all_digits (take (nat dotplace) ds)"
      using all_digits_take_drop[OF ds(1)] by simp
    ultimately show "all_digits ip" unfolding ip_def by presburger
    have "take (nat dotplace) ds \<noteq> []" if "0 < dotplace"
      using that ds(2) by (cases ds) auto
    then show "ip \<noteq> []" unfolding ip_def using ds(2) by auto
  qed
  have 2: "all_digits f"
    unfolding f_def using ds(1) all_digits_take_drop[OF ds(1)] all_digits_replicate_0 by simp
  have 3: "fr = [] \<and> f = [] \<or> fr = CHR ''.'' # f"
    unfolding fr_def f_def by simp
  have 4: "nat_of_str (ip @ f) = Some (nat \<bar>c\<bar>)"
  proof -
    have ne: "ip @ f \<noteq> []" using 1 by simp
    have "digits_val 0 (ip @ f) = Some (nat \<bar>c\<bar>)"
    proof (cases "dotplace \<le> 0")
      case True
      then have "ip @ f = replicate (Suc (nat (- dotplace))) CHR ''0'' @ ds"
        by (simp add: ip_def f_def)
      then show ?thesis using ds(3) digits_val_zeros by metis
    next
      case False
      show ?thesis
      proof (cases "L \<le> dotplace")
        case True
        with False dp_le have "ip @ f = ds" by (simp add: ip_def f_def)
        then show ?thesis using ds(3) by simp
      next
        case b: False
        with False have "ip @ f = ds" by (simp add: ip_def f_def)
        then show ?thesis using ds(3) by simp
      qed
    qed
    with ne show ?thesis by (simp add: nat_of_str_def)
  qed
  have 5: "ex = [] \<and> x = 0 \<or> (\<exists>t. ex = CHR ''E'' # t \<and> int_of_str t = Some x)"
    using int_of_str_signed[of x] unfolding ex_def by simp
  have lenf: "int (length f) = (if dotplace \<le> 0 then - dotplace + L else if L \<le> dotplace then 0 else L - dotplace)"
    unfolding f_def L_def by simp
  have len: "x - int (length f) = e"
  proof (cases "e \<le> 0 \<and> - 6 < e + L")
    case True
    then have "dotplace = e + L" by (auto simp: dotplace_def leftdigits_def)
    with True Lpos show ?thesis unfolding lenf x_def leftdigits_def by auto
  next
    case False
    then have "dotplace = 1" by (auto simp: dotplace_def leftdigits_def)
    with Lpos show ?thesis unfolding lenf x_def leftdigits_def by auto
  qed
  have sgn: "(if c < 0 then - int (nat \<bar>c\<bar>) else int (nat \<bar>c\<bar>)) = c" by simp
  have "Decimal_of_str (str_decimal d)
          = Some (Decimal (if c < 0 then - int (nat \<bar>c\<bar>) else int (nat \<bar>c\<bar>)) (x - int (length f)))"
    unfolding str by (rule Decimal_of_str_shape[OF 1 2 3 4 5])
  then show ?thesis
    by (simp only: len sgn d)
qed


section \<open>The read-only views\<close>












section \<open>Dictionaries of dictionaries\<close>

lemma wf_dd_Nil [simp]: "wf_dd []"
  by (simp add: wf_dd_def)

lemma wf_dd_inner: "wf_dd dd \<Longrightarrow> map_of dd m = Some d \<Longrightarrow> distinct (map fst d)"
  by (auto simp: wf_dd_def list_all_iff dest!: map_of_SomeD)

lemma wf_dd_update: "wf_dd dd \<Longrightarrow> distinct (map fst d) \<Longrightarrow> wf_dd (AList.update m d dd)"
proof (induction dd)
  case Nil
  then show ?case by (simp add: wf_dd_def)
next
  case (Cons a dd)
  then show ?case
    by (cases a) (auto simp: wf_dd_def AList.update_keys)
qed

lemma wf_dd_upd2: "wf_dd dd \<Longrightarrow> wf_dd (upd2 dd m k v)"
  unfolding upd2_def
  by (rule wf_dd_update) (auto simp: AList.distinct_update wf_dd_inner split: option.splits)

lemma wf_dd_del: "wf_dd dd \<Longrightarrow> map_of dd m = Some d \<Longrightarrow> wf_dd (AList.update m (AList.delete k d) dd)"
  by (rule wf_dd_update) (auto simp: AList.distinct_delete wf_dd_inner)

lemma wf_dd_snoc: "wf_dd dd \<Longrightarrow> map_of dd m = None \<Longrightarrow> wf_dd (dd @ [(m, [])])"
  by (auto simp: wf_dd_def map_of_eq_None_iff)

lemma lookup2_upd2:
  "lookup2 (upd2 dd m k v) m' k' = (if m' = m \<and> k' = k then Some v else lookup2 dd m' k')"
  by (auto simp: lookup2_def upd2_def AList.update_conv' split: option.splits)

lemma lookup2_del:
  "map_of dd m = Some d \<Longrightarrow>
   lookup2 (AList.update m (AList.delete k d) dd) m' k'
     = (if m' = m \<and> k' = k then None else lookup2 dd m' k')"
  by (auto simp: lookup2_def AList.update_conv' AList.delete_conv' split: option.splits)

lemma lookup2_snoc:
  "map_of dd m = None \<Longrightarrow> lookup2 (dd @ [(m, [])]) m' k' = lookup2 dd m' k'"
  by (auto simp: lookup2_def map_add_def split: option.splits)

lemma upd2_snoc:
  "map_of dd m = None \<Longrightarrow> AList.update m d (dd @ [(m, [])]) = AList.update m d dd"
  by (induction dd) (auto split: if_splits)

lemma in_dd_iff:
  assumes "wf_dd dd"
  shows "(\<exists>d. (m, d) \<in> set dd \<and> (k, v) \<in> set d) \<longleftrightarrow> lookup2 dd m k = Some v"
proof
  assume "\<exists>d. (m, d) \<in> set dd \<and> (k, v) \<in> set d"
  then obtain d where d: "(m, d) \<in> set dd" "(k, v) \<in> set d" by blast
  from assms d(1) have md: "map_of dd m = Some d" by (simp add: wf_dd_def)
  with assms have "distinct (map fst d)" by (rule wf_dd_inner)
  with d(2) have "map_of d k = Some v" by simp
  with md show "lookup2 dd m k = Some v" by (simp add: lookup2_def)
next
  assume l: "lookup2 dd m k = Some v"
  then obtain d where "map_of dd m = Some d" "map_of d k = Some v"
    by (cases "map_of dd m") (simp_all add: lookup2_def)
  then have "(m, d) \<in> set dd" "(k, v) \<in> set d"
    by (auto dest: map_of_SomeD)
  then show "\<exists>d. (m, d) \<in> set dd \<and> (k, v) \<in> set d" by blast
qed

lemma list_all2_lookup:
  assumes "wf_dd dd"
  shows "list_all (\<lambda>(m, d). list_all (\<lambda>(k, v). P m k v) d) dd
           \<longleftrightarrow> (\<forall>m k v. lookup2 dd m k = Some v \<longrightarrow> P m k v)"
proof
  assume L: "list_all (\<lambda>(m, d). list_all (\<lambda>(k, v). P m k v) d) dd"
  show "\<forall>m k v. lookup2 dd m k = Some v \<longrightarrow> P m k v"
  proof (intro allI impI)
    fix m k v assume "lookup2 dd m k = Some v"
    then obtain d where "(m, d) \<in> set dd" "(k, v) \<in> set d"
      using in_dd_iff[OF assms, of m k v] by blast
    with L show "P m k v"
      unfolding list_all_iff by blast
  qed
next
  assume R: "\<forall>m k v. lookup2 dd m k = Some v \<longrightarrow> P m k v"
  show "list_all (\<lambda>(m, d). list_all (\<lambda>(k, v). P m k v) d) dd"
    unfolding list_all_iff
  proof (intro ballI)
    fix x assume x: "x \<in> set dd"
    obtain m d where md: "x = (m, d)" by (cases x)
    have "P m k v" if "(k, v) \<in> set d" for k v
      using in_dd_iff[OF assms, of m k v] that x md R by blast
    then show "case x of (m, d) \<Rightarrow> \<forall>y\<in>set d. case y of (k, v) \<Rightarrow> P m k v"
      unfolding md by auto
  qed
qed

lemma set_items_lookup:
  assumes "wf_dd (items_dict c)"
  shows "set (items c) = {v. \<exists>m k. lookup2 (items_dict c) m k = Some v}"
proof -
  have "v \<in> set (items c) \<longleftrightarrow> (\<exists>m k d. (m, d) \<in> set (items_dict c) \<and> (k, v) \<in> set d)" for v
    unfolding items_def by force
  then show ?thesis
    using in_dd_iff[OF assms] by blast
qed

lemma lookup2_foldl_upd2:
  "lookup2 (foldl (\<lambda>dd x. upd2 dd (f x) (g x) (h x)) dd xs) m k
     = (case map_of (rev (map (\<lambda>x. ((f x, g x), h x)) xs)) (m, k) of
          Some v \<Rightarrow> Some v
        | None \<Rightarrow> lookup2 dd m k)"
proof (induction xs arbitrary: dd)
  case Nil
  then show ?case by simp
next
  case (Cons x xs)
  show ?case
    by (simp add: Cons.IH lookup2_upd2 map_add_def split: option.splits)
qed

lemma wf_dd_foldl_upd2:
  "wf_dd dd \<Longrightarrow> wf_dd (foldl (\<lambda>dd x. upd2 dd (f x) (g x) (h x)) dd xs)"
  by (induction xs arbitrary: dd) (simp_all add: wf_dd_upd2)

lemma map_of_consistent:
  assumes "\<And>a b b'. (a, b) \<in> set ps \<Longrightarrow> (a, b') \<in> set ps \<Longrightarrow> b = b'"
  shows "map_of ps a = Some b \<longleftrightarrow> (a, b) \<in> set ps"
proof
  assume "map_of ps a = Some b"
  then show "(a, b) \<in> set ps" by (rule map_of_SomeD)
next
  assume in_ps: "(a, b) \<in> set ps"
  then have "a \<in> fst ` set ps" by force
  then obtain b' where b': "map_of ps a = Some b'"
    by (cases "map_of ps a") (auto simp: map_of_eq_None_iff)
  then have "(a, b') \<in> set ps" by (rule map_of_SomeD)
  with assms in_ps have "b = b'" by blast
  with b' show "map_of ps a = Some b" by simp
qed

lemma lookup2_foldl_upd2_iff:
  assumes "\<And>x y. x \<in> set xs \<Longrightarrow> y \<in> set xs \<Longrightarrow> f x = f y \<Longrightarrow> g x = g y \<Longrightarrow> h x = h y"
  shows "lookup2 (foldl (\<lambda>dd x. upd2 dd (f x) (g x) (h x)) [] xs) m k = Some v
           \<longleftrightarrow> (\<exists>x \<in> set xs. f x = m \<and> g x = k \<and> h x = v)"
proof -
  define ps where "ps = rev (map (\<lambda>x. ((f x, g x), h x)) xs)"
  have mem: "(a, b) \<in> set ps \<longleftrightarrow> (\<exists>x \<in> set xs. a = (f x, g x) \<and> b = h x)" for a b
    unfolding ps_def by (auto simp: image_iff)
  have c: "b = b'" if "(a, b) \<in> set ps" "(a, b') \<in> set ps" for a b b'
  proof -
    from that(1) obtain x where x: "x \<in> set xs" "a = (f x, g x)" "b = h x"
      unfolding mem by blast
    from that(2) obtain y where y: "y \<in> set xs" "a = (f y, g y)" "b' = h y"
      unfolding mem by blast
    from x(2) y(2) have "f x = f y" "g x = g y" by simp_all
    with assms[OF x(1) y(1)] x(3) y(3) show ?thesis by simp
  qed
  have "lookup2 (foldl (\<lambda>dd x. upd2 dd (f x) (g x) (h x)) [] xs) m k = map_of ps (m, k)"
    unfolding lookup2_foldl_upd2 ps_def by (simp add: lookup2_def split: option.splits)
  moreover have "map_of ps (m, k) = Some v \<longleftrightarrow> ((m, k), v) \<in> set ps"
    by (rule map_of_consistent) (rule c)
  moreover have "((m, k), v) \<in> set ps \<longleftrightarrow> (\<exists>x \<in> set xs. f x = m \<and> g x = k \<and> h x = v)"
    unfolding mem by auto
  ultimately show ?thesis by simp
qed

lemma cart_serializable_upd2:
  "cart_serializable c
     = foldl (\<lambda>dd item. upd2 dd (get_product_model_path (product item))
                            (str_int (pk (product item))) (to_dict item)) [] (items c)"
  by (simp add: cart_serializable_def upd2_def Let_def)

lemma wf_dd_cart_serializable: "wf_dd (cart_serializable c)"
  unfolding cart_serializable_upd2 by (rule wf_dd_foldl_upd2) simp

lemma path_rsplit:
  "CHR ''.'' \<notin> set (model_name p) \<Longrightarrow>
   rsplit_dot (get_product_model_path p) = Some (model_module p, model_name p)"
  unfolding get_product_model_path_def by (rule rsplit_dot_join)

lemma product_eqI:
  fixes p q :: Product
  assumes "CHR ''.'' \<notin> set (model_name p)" "CHR ''.'' \<notin> set (model_name q)"
    and "get_product_model_path p = get_product_model_path q" "pk p = pk q"
  shows "p = q"
proof -
  from path_rsplit[OF assms(1)] path_rsplit[OF assms(2)] assms(3)
  have "model_module p = model_module q" "model_name p = model_name q" by simp_all
  with assms(4) show ?thesis by simp
qed

section \<open>The invariant of the operations\<close>

lemma own_keys_iff:
  "own_keys c \<longleftrightarrow> wf_dd (items_dict c) \<and> (\<forall>m k item. lookup2 (items_dict c) m k = Some item \<longrightarrow> own m k item)"
proof (cases "wf_dd (items_dict c)")
  case True
  show ?thesis
    unfolding own_keys_def own_def using list_all2_lookup[OF True, of "\<lambda>m k item. m = get_product_model_path (product item) \<and> k = PyInt (pk (product item)) \<and> 1 \<le> quantity item"]
    by (simp add: True)
next
  case False
  then show ?thesis by (simp add: own_keys_def)
qed

lemma items_dict_update_session [simp]: "items_dict (update_session c) = items_dict c"
  by (simp add: update_session_def)

lemma getitem_Inr:
  assumes "items_dict_getitem c model = Inr (c1, d)" and "own_keys c"
  shows "own_keys c1" "map_of (items_dict c1) model = Some d"
proof -
  show "own_keys c1"
  proof (cases "map_of (items_dict c) model")
    case None
    with assms(1) have c1: "c1 = c\<lparr>items_dict := items_dict c @ [(model, [])]\<rparr>"
      by (simp add: items_dict_getitem_def split: if_splits)
    from assms(2) None show ?thesis
      unfolding own_keys_iff c1 by (simp add: wf_dd_snoc lookup2_snoc)
  next
    case (Some a)
    with assms show ?thesis by (simp add: items_dict_getitem_def)
  qed
  show "map_of (items_dict c1) model = Some d"
    using assms(1) by (auto simp: items_dict_getitem_def map_add_def split: option.splits if_splits)
qed

lemma getitem_Inl:
  "items_dict_getitem c model = Inl (e, c1) \<Longrightarrow> c1 = c"
  by (auto simp: items_dict_getitem_def split: option.splits if_splits)

lemma upd2_eq: "map_of dd m = Some d \<Longrightarrow> AList.update m (AList.update k v d) dd = upd2 dd m k v"
  by (simp add: upd2_def)

lemma own_keys_set:
  assumes "own_keys c1" "map_of (items_dict c1) model = Some d" "own model k v"
  shows "own_keys (update_session (set_inner c1 model (AList.update k v d)))"
  using assms unfolding own_keys_iff
  by (simp add: set_inner_def upd2_eq wf_dd_upd2 lookup2_upd2)

lemma own_keys_del:
  assumes "own_keys c1" "map_of (items_dict c1) model = Some d"
  shows "own_keys (update_session (set_inner c1 model (AList.delete k d)))"
  using assms unfolding own_keys_iff
  by (simp add: set_inner_def wf_dd_del lookup2_del)

lemma own_lookup:
  assumes "own_keys c1" "map_of (items_dict c1) model = Some d" "map_of d k = Some item"
  shows "own model k item"
proof -
  have "lookup2 (items_dict c1) model k = Some item"
    using assms(2,3) by (simp add: lookup2_def)
  with assms(1) show ?thesis unfolding own_keys_iff by blast
qed

lemma CartItem_init_ok:
  "CartItem_init p (PyInt q) pr = Inr \<lparr>product = p, quantity = q, price = pr\<rparr>"
  by (simp add: CartItem_init_def Decimal_of_str_str_decimal)

lemma own_keys_add: "own_keys c \<Longrightarrow> own_keys (cart_after (add c p pr q))"
proof -
  assume oc: "own_keys c"
  let ?m = "get_product_model_path p"
  show ?thesis
  proof (cases "items_dict_getitem c ?m")
    case (Inl a)
    obtain e c1 where a: "a = (e, c1)" by (cases a)
    with Inl getitem_Inl have "c1 = c" by blast
    with Inl a oc show ?thesis
      by (simp add: add_def Let_def CartItem_init_ok split: option.splits)
  next
    case (Inr b)
    obtain c1 d where b: "b = (c1, d)" by (cases b)
    note g = getitem_Inr[OF Inr[unfolded b] oc]
    show ?thesis
    proof (cases "q < 1")
      case True
      with oc show ?thesis by (simp add: add_def Let_def)
    next
      case q: False
      show ?thesis
      proof (cases "p \<in> set (products c)")
        case True
        show ?thesis
        proof (cases "map_of d (PyInt (pk p))")
          case None
          with True q Inr b g show ?thesis by (simp add: add_def Let_def)
        next
          case (Some item)
          from own_lookup[OF g Some] q
          have "own ?m (PyInt (pk p)) (item\<lparr>quantity := quantity item + q\<rparr>)"
            by (simp add: own_def)
          from own_keys_set[OF g this] True q Inr b Some show ?thesis
            by (simp add: add_def Let_def)
        qed
      next
        case False
        show ?thesis
        proof (cases pr)
          case None
          with False q oc show ?thesis by (simp add: add_def Let_def)
        next
          case (Some price_arg)
          from q have "own ?m (PyInt (pk p)) \<lparr>product = p, quantity = q, price = price_arg\<rparr>"
            by (simp add: own_def)
          from own_keys_set[OF g this] False q Inr b Some show ?thesis
            by (simp add: add_def Let_def CartItem_init_ok)
        qed
      qed
    qed
  qed
qed

lemma own_keys_remove: "own_keys c \<Longrightarrow> own_keys (cart_after (remove c p))"
proof -
  assume oc: "own_keys c"
  let ?m = "get_product_model_path p"
  show ?thesis
  proof (cases "items_dict_getitem c ?m")
    case (Inl a)
    obtain e c1 where a: "a = (e, c1)" by (cases a)
    with Inl getitem_Inl have "c1 = c" by blast
    with Inl a oc show ?thesis
      by (simp add: remove_def Let_def)
  next
    case (Inr b)
    obtain c1 d where b: "b = (c1, d)" by (cases b)
    note g = getitem_Inr[OF Inr[unfolded b] oc]
    from own_keys_del[OF g] g(1) oc Inr b show ?thesis
      by (simp add: remove_def Let_def split: option.splits)
  qed
qed

lemma own_keys_remove_single: "own_keys c \<Longrightarrow> own_keys (cart_after (remove_single c p))"
proof -
  assume oc: "own_keys c"
  let ?m = "get_product_model_path p"
  show ?thesis
  proof (cases "items_dict_getitem c ?m")
    case (Inl a)
    obtain e c1 where a: "a = (e, c1)" by (cases a)
    with Inl getitem_Inl have "c1 = c" by blast
    with Inl a oc show ?thesis
      by (simp add: remove_single_def Let_def)
  next
    case (Inr b)
    obtain c1 d where b: "b = (c1, d)" by (cases b)
    note g = getitem_Inr[OF Inr[unfolded b] oc]
    show ?thesis
    proof (cases "map_of d (PyInt (pk p))")
      case None
      with g(1) oc Inr b show ?thesis
        by (simp add: remove_single_def Let_def)
    next
      case (Some item)
      show ?thesis
      proof (cases "quantity item \<le> 1")
        case True
        with own_keys_del[OF g] oc Inr b Some show ?thesis
          by (simp add: remove_single_def Let_def)
      next
        case False
        with own_lookup[OF g Some]
        have "own ?m (PyInt (pk p)) (item\<lparr>quantity := quantity item - 1\<rparr>)"
          by (simp add: own_def)
        from own_keys_set[OF g this] False oc Inr b Some show ?thesis
          by (simp add: remove_single_def Let_def)
      qed
    qed
  qed
qed

lemma own_keys_set_quantity: "own_keys c \<Longrightarrow> own_keys (cart_after (set_quantity c p q))"
proof -
  assume oc: "own_keys c"
  let ?m = "get_product_model_path p"
  show ?thesis
  proof (cases "items_dict_getitem c ?m")
    case (Inl a)
    obtain e c1 where a: "a = (e, c1)" by (cases a)
    with Inl getitem_Inl have "c1 = c" by blast
    with Inl a oc show ?thesis
      by (simp add: set_quantity_def Let_def)
  next
    case (Inr b)
    obtain c1 d where b: "b = (c1, d)" by (cases b)
    note g = getitem_Inr[OF Inr[unfolded b] oc]
    show ?thesis
    proof (cases "map_of d (PyInt (pk p))")
      case None
      with g(1) oc Inr b show ?thesis
        by (simp add: set_quantity_def Let_def)
    next
      case (Some item)
      show ?thesis
      proof (cases "q < 1")
        case True
        with own_keys_del[OF g, of "PyInt (pk p)"] oc Inr b Some show ?thesis
          by (simp add: set_quantity_def Let_def AList.delete_update_same)
      next
        case False
        with own_lookup[OF g Some]
        have "own ?m (PyInt (pk p)) (item\<lparr>quantity := q\<rparr>)"
          by (simp add: own_def)
        from own_keys_set[OF g this] False oc Inr b Some show ?thesis
          by (simp add: set_quantity_def Let_def)
      qed
    qed
  qed
qed

lemma own_keys_clear: "own_keys (clear c)"
  by (simp add: own_keys_def clear_def)

lemma own_keys_apply_op: "own_keys c \<Longrightarrow> own_keys (cart_after (apply_op c op))"
  by (cases op)
    (simp_all add: own_keys_add own_keys_remove own_keys_remove_single own_keys_set_quantity
      own_keys_clear)

lemma own_keys_run_ops: "own_keys c \<Longrightarrow> own_keys (run_ops c ops)"
  unfolding run_ops_def
  by (induction ops arbitrary: c) (simp_all add: own_keys_apply_op)

lemma own_keys_empty: "items_dict c = [] \<Longrightarrow> own_keys c"
  by (simp add: own_keys_def)

lemma inner_keys:
  assumes "list_all (\<lambda>(k, item). own m k item) d"
  shows "map item_key (map snd d) = map (\<lambda>k. (m, case k of PyInt n \<Rightarrow> n | PyStr s \<Rightarrow> 0)) (map fst d)"
  using assms by (induction d) (auto simp: own_def item_key_def)

lemma inner_distinct:
  assumes "list_all (\<lambda>(k, item). own m k item) d" "distinct (map fst d)"
  shows "distinct (map item_key (map snd d))"
proof -
  have K: "\<exists>n. k = PyInt n" if "k \<in> set (map fst d)" for k
    using assms(1) that by (auto simp: list_all_iff own_def)
  have "inj_on (\<lambda>k. (m, case k of PyInt n \<Rightarrow> n | PyStr s \<Rightarrow> 0)) (set (map fst d))"
  proof (rule inj_onI)
    fix x y
    assume x: "x \<in> set (map fst d)" and y: "y \<in> set (map fst d)"
      and e: "(m, case x of PyInt n \<Rightarrow> n | PyStr s \<Rightarrow> 0) = (m, case y of PyInt n \<Rightarrow> n | PyStr s \<Rightarrow> 0)"
    from K[OF x] obtain n where "x = PyInt n" ..
    moreover from K[OF y] obtain n' where "y = PyInt n'" ..
    ultimately show "x = y" using e by simp
  qed
  then have "distinct (map (\<lambda>k. (m, case k of PyInt n \<Rightarrow> n | PyStr s \<Rightarrow> 0)) (map fst d))"
    by (rule iffD2[OF distinct_map, OF conjI[OF assms(2)]])
  then show ?thesis
    by (simp only: inner_keys[OF assms(1)])
qed

lemma inner_fst:
  assumes "list_all (\<lambda>(k, item). own m k item) d"
  shows "fst ` set (map item_key (map snd d)) \<subseteq> {m}"
  using assms by (auto simp: list_all_iff own_def item_key_def)

lemma flat_fst:
  assumes "list_all (\<lambda>(m, d). list_all (\<lambda>(k, item). own m k item) d) dd"
  shows "fst ` set (map item_key (concat (map (\<lambda>(m, d). map snd d) dd))) \<subseteq> fst ` set dd"
  using assms
proof (induction dd)
  case Nil
  then show ?case by simp
next
  case (Cons a dd)
  obtain m d where a: "a = (m, d)" by (cases a)
  from Cons.prems a have d: "list_all (\<lambda>(k, item). own m k item) d"
    and rest: "list_all (\<lambda>(m, d). list_all (\<lambda>(k, item). own m k item) d) dd"
    by auto
  have "fst ` set (map item_key (concat (map (\<lambda>(m, d). map snd d) ((m, d) # dd))))
          = fst ` set (map item_key (map snd d))
            \<union> fst ` set (map item_key (concat (map (\<lambda>(m, d). map snd d) dd)))"
    by (simp only: list.map concat.simps map_append set_append image_Un prod.case)
  also have "\<dots> \<subseteq> {m} \<union> fst ` set dd"
    by (rule Un_mono[OF inner_fst[OF d] Cons.IH[OF rest]])
  also have "\<dots> = fst ` set ((m, d) # dd)"
    by simp
  finally show ?case
    unfolding a .
qed

lemma flat_distinct:
  assumes "distinct (map fst dd)"
    and "list_all (\<lambda>(m, d). distinct (map fst d)) dd"
    and "list_all (\<lambda>(m, d). list_all (\<lambda>(k, item). own m k item) d) dd"
  shows "distinct (map item_key (concat (map (\<lambda>(m, d). map snd d) dd)))"
  using assms
proof (induction dd)
  case Nil
  then show ?case by simp
next
  case (Cons a dd)
  obtain m d where a: "a = (m, d)" by (cases a)
  from Cons.prems a have d: "distinct (map fst d)" "list_all (\<lambda>(k, item). own m k item) d"
    and m: "m \<notin> fst ` set dd"
    and rest: "distinct (map fst dd)" "list_all (\<lambda>(m, d). distinct (map fst d)) dd"
      "list_all (\<lambda>(m, d). list_all (\<lambda>(k, item). own m k item) d) dd"
    by auto
  have 1: "distinct (map item_key (map snd d))" by (rule inner_distinct[OF d(2) d(1)])
  have 2: "distinct (map item_key (concat (map (\<lambda>(m, d). map snd d) dd)))"
    by (rule Cons.IH[OF rest])
  have 3: "set (map item_key (map snd d)) \<inter> set (map item_key (concat (map (\<lambda>(m, d). map snd d) dd))) = {}"
  proof -
    have "fst ` set (map item_key (map snd d)) \<inter> fst ` set (map item_key (concat (map (\<lambda>(m, d). map snd d) dd))) = {}"
      using inner_fst[OF d(2)] flat_fst[OF rest(3)] m by blast
    then show ?thesis by blast
  qed
  from 1 2 3 show ?case by (simp add: a)
qed

lemma own_keys_list:
  "own_keys c \<longleftrightarrow> wf_dd (items_dict c) \<and> list_all (\<lambda>(m, d). list_all (\<lambda>(k, item). own m k item) d) (items_dict c)"
  by (simp add: own_keys_def own_def)

lemma own_keys_distinct: "own_keys c \<Longrightarrow> distinct (map item_key (items c))"
  unfolding own_keys_list wf_dd_def items_def by (simp add: flat_distinct)

lemma own_keys_quantity: "own_keys c \<Longrightarrow> item \<in> set (items c) \<Longrightarrow> 1 \<le> quantity item"
  unfolding own_keys_iff by (auto simp: set_items_lookup own_def)

lemma distinct_products_of_keys: "distinct (map item_key xs) \<Longrightarrow> distinct (map product xs)"
proof -
  assume d: "distinct (map item_key xs)"
  have "map item_key xs = map (\<lambda>p. (get_product_model_path p, pk p)) (map product xs)"
    by (simp add: item_key_def comp_def)
  from d[unfolded this] distinct_map[of "\<lambda>p. (get_product_model_path p, pk p)" "map product xs"]
  show ?thesis by blast
qed


text \<open>
  Claim C8. From a cart without items, every sequence of \<^verbatim>\<open>add\<close>, \<^verbatim>\<open>remove\<close>,
  \<^verbatim>\<open>remove_single\<close>, \<^verbatim>\<open>set_quantity\<close> and \<^verbatim>\<open>clear\<close> calls (those that raise
  included) leaves a cart in which every item has a quantity of at least 1 and no pair of
  model and primary key, and so no product, occurs twice.
\<close>

theorem cart_invariant:
  assumes "items_dict c = []"
  shows "(\<forall>item \<in> set (items (run_ops c ops)). 1 \<le> quantity item)
         \<and> distinct (map (\<lambda>item. (get_product_model_path (product item), pk (product item)))
                        (items (run_ops c ops)))
         \<and> distinct (products (run_ops c ops))"
proof -
  have o: "own_keys (run_ops c ops)"
    using assms by (simp add: own_keys_run_ops own_keys_empty)
  from own_keys_distinct[OF o] have d: "distinct (map item_key (items (run_ops c ops)))" .
  then have "distinct (products (run_ops c ops))"
    unfolding products_def by (rule distinct_products_of_keys)
  moreover from d have "distinct (map (\<lambda>item. (get_product_model_path (product item), pk (product item)))
                        (items (run_ops c ops)))"
    by (simp add: item_key_def[abs_def])
  ultimately show ?thesis
    using own_keys_quantity[OF o] by blast
qed

lemma ex_ops_run: "run_ops new_cart ex_ops = two_item_cart"
proof -
  have 1: "add new_cart ex_product (Some (Decimal 999 (- 2))) 2 = Inr added_cart"
    by code_simp
  have 2: "add added_cart ex_ticket (Some (Decimal 5 0)) 1 = Inr two_item_cart"
    by code_simp
  have 3: "add two_item_cart ex_ticket None 0 = Inl (ValueError, two_item_cart)"
    by (simp add: add_def)
  show ?thesis
    by (simp add: run_ops_def ex_ops_def 1 2 3)
qed

theorem cart_invariant_witness:
  "items_dict new_cart = []
   \<and> run_ops new_cart ex_ops = two_item_cart
   \<and> map quantity (items two_item_cart) = [2, 1]
   \<and> distinct (products two_item_cart)"
proof -
  have e: "items_dict new_cart = []"
    by (simp add: new_cart_def)
  have q: "map quantity (items two_item_cart) = [2, 1]"
    by code_simp
  from cart_invariant [OF e, of ex_ops] e q show ?thesis
    by (simp add: ex_ops_run)
qed

section \<open>The round trip through the session\<close>

lemma item_of_product:
  assumes "distinct (products c)" "item \<in> set (items c)"
  shows "item_of c (product item) = item"
proof -
  from assms(1) have inj: "inj_on product (set (items c))"
    unfolding products_def by (simp add: distinct_map)
  from assms(2) obtain y where y: "find (\<lambda>i. product i = product item) (items c) = Some y"
    by (cases "find (\<lambda>i. product i = product item) (items c)") (auto simp: find_None_iff)
  then have "y \<in> set (items c)" "product y = product item"
    by (auto simp: find_Some_iff)
  with inj assms(2) have "y = item" by (auto dest: inj_onD)
  with y show ?thesis by (simp add: item_of_def)
qed

lemma those_int_of_str:
  assumes "\<And>k. k \<in> set keys \<Longrightarrow> \<exists>n. k = str_int n"
  shows "\<exists>pks. those (map int_of_str keys) = Some pks \<and> (\<forall>n. n \<in> set pks \<longleftrightarrow> str_int n \<in> set keys)"
  using assms
proof (induction keys)
  case Nil
  then show ?case by simp
next
  case (Cons k keys)
  from Cons.prems obtain n where n: "k = str_int n" by auto
  from Cons obtain pks where pks: "those (map int_of_str keys) = Some pks"
    "\<And>n. n \<in> set pks \<longleftrightarrow> str_int n \<in> set keys" by auto
  have "those (map int_of_str (k # keys)) = Some (n # pks)"
    by (simp add: n int_of_str_str_int pks(1))
  moreover have "j \<in> set (n # pks) \<longleftrightarrow> str_int j \<in> set (k # keys)" for j
    using pks(2)[of j] by (auto simp: n str_int_inj)
  ultimately show ?case by blast
qed

lemma filter_pk_in_canonical:
  assumes "\<And>k. k \<in> set keys \<Longrightarrow> \<exists>n. k = str_int n"
  shows "filter_pk_in keys qs = Inr (filter (\<lambda>q. str_int (pk q) \<in> set keys) qs)"
proof -
  from those_int_of_str[OF assms] obtain pks where pks: "those (map int_of_str keys) = Some pks"
    "\<And>n. n \<in> set pks \<longleftrightarrow> str_int n \<in> set keys" by blast
  have "filter (\<lambda>p. pk p \<in> set pks) qs = filter (\<lambda>q. str_int (pk q) \<in> set keys) qs"
    by (rule filter_cong) (simp_all add: pks(2))
  then show ?thesis
    by (simp add: filter_pk_in_def pks(1))
qed

lemma to_dict_fields:
  "map_of (to_dict item) ''quantity'' = Some (PyInt (quantity item))"
  "map_of (to_dict item) ''price'' = Some (PyStr (str_decimal (price item)))"
  by (simp_all add: to_dict_def)

lemma rebuild_item:
  fixes item :: CartItem
  shows "CartItem_init (product item) (PyInt (quantity item)) (price item) = Inr item"
  by (simp add: CartItem_init_ok)

lemma models_present_D:
  assumes "models_present env c" "p \<in> set (products c)"
  shows "CHR ''.'' \<notin> set (model_name p)"
    and "\<exists>Model. get_product_model env (get_product_model_path p) = Inr Model
           \<and> (\<forall>q \<in> set Model. model_module q = model_module p \<and> model_name q = model_name p)"
proof -
  from assms have *: "CHR ''.'' \<notin> set (model_name p) \<and>
        (case get_product_model env (get_product_model_path p) of
           Inl e \<Rightarrow> False
         | Inr Model \<Rightarrow>
             list_all (\<lambda>q. model_module q = model_module p \<and> model_name q = model_name p) Model)"
    unfolding models_present_def list_all_iff by blast
  then show "CHR ''.'' \<notin> set (model_name p)" by simp
  from * show "\<exists>Model. get_product_model env (get_product_model_path p) = Inr Model
           \<and> (\<forall>q \<in> set Model. model_module q = model_module p \<and> model_name q = model_name p)"
    by (cases "get_product_model env (get_product_model_path p)") (simp_all add: list_all_iff)
qed

lemma item_eqI:
  assumes "distinct (products c)" "models_present env c"
    and "x \<in> set (items c)" "y \<in> set (items c)"
    and "get_product_model_path (product x) = get_product_model_path (product y)"
    and "pk (product x) = pk (product y)"
  shows "x = y"
proof -
  have px: "product x \<in> set (products c)" and py: "product y \<in> set (products c)"
    using assms(3,4) by (simp_all add: products_def)
  have "product x = product y"
    by (rule product_eqI[OF models_present_D(1)[OF assms(2) px] models_present_D(1)[OF assms(2) py] assms(5,6)])
  moreover from assms(1) have "inj_on product (set (items c))"
    unfolding products_def by (simp add: distinct_map)
  ultimately show ?thesis using assms(3,4) by (auto dest: inj_onD)
qed

lemma ser_lookup:
  assumes "distinct (products c)" "models_present env c"
  shows "lookup2 (cart_serializable c) m k = Some v
           \<longleftrightarrow> (\<exists>item \<in> set (items c). get_product_model_path (product item) = m
                  \<and> str_int (pk (product item)) = k \<and> to_dict item = v)"
  unfolding cart_serializable_upd2
proof (rule lookup2_foldl_upd2_iff)
  fix x y
  assume "x \<in> set (items c)" "y \<in> set (items c)"
    "get_product_model_path (product x) = get_product_model_path (product y)"
    "str_int (pk (product x)) = str_int (pk (product y))"
  then have "x = y"
    using item_eqI[OF assms] by (simp add: str_int_inj)
  then show "to_dict x = to_dict y" by simp
qed

lemma list_all_update:
  "list_all P dd \<Longrightarrow> P (m, d) \<Longrightarrow> list_all P (AList.update m d dd)"
  by (induction dd) auto

lemma nonempty_upd2:
  "list_all (\<lambda>(m, d). d \<noteq> []) dd \<Longrightarrow> list_all (\<lambda>(m, d). d \<noteq> []) (upd2 dd m k v)"
  unfolding upd2_def by (rule list_all_update) simp_all

lemma nonempty_foldl_upd2:
  "list_all (\<lambda>(m, d). d \<noteq> []) dd \<Longrightarrow>
   list_all (\<lambda>(m, d). d \<noteq> []) (foldl (\<lambda>dd x. upd2 dd (f x) (g x) (h x)) dd xs)"
  by (induction xs arbitrary: dd) (simp_all add: nonempty_upd2)

lemma ser_nonempty: "(m, d) \<in> set (cart_serializable c) \<Longrightarrow> d \<noteq> []"
proof -
  have "list_all (\<lambda>(m, d). d \<noteq> []) (cart_serializable c)"
    unfolding cart_serializable_upd2 by (rule nonempty_foldl_upd2) simp
  then show "(m, d) \<in> set (cart_serializable c) \<Longrightarrow> d \<noteq> []"
    by (auto simp: list_all_iff)
qed

lemma ser_map_of:
  "(m, d) \<in> set (cart_serializable c) \<Longrightarrow> map_of (cart_serializable c) m = Some d"
  using wf_dd_cart_serializable[of c] by (simp add: wf_dd_def)

lemma ser_key:
  assumes "distinct (products c)" "models_present env c"
    and "(m, d) \<in> set (cart_serializable c)" "k \<in> fst ` set d"
  shows "\<exists>item \<in> set (items c). get_product_model_path (product item) = m
           \<and> str_int (pk (product item)) = k \<and> map_of d k = Some (to_dict item)"
proof -
  from assms(4) obtain v where v: "map_of d k = Some v"
    by (cases "map_of d k") (auto simp: map_of_eq_None_iff)
  with ser_map_of[OF assms(3)] have "lookup2 (cart_serializable c) m k = Some v"
    by (simp add: lookup2_def)
  with ser_lookup[OF assms(1,2)] v show ?thesis by auto
qed

lemma ser_model:
  assumes "distinct (products c)" "models_present env c"
    and "(m, d) \<in> set (cart_serializable c)"
  shows "\<exists>item \<in> set (items c). get_product_model_path (product item) = m"
proof -
  from ser_nonempty[OF assms(3)] obtain k where "k \<in> fst ` set d"
    by (cases d) auto
  from ser_key[OF assms this] show ?thesis by blast
qed

lemma rows_model:
  assumes "models_present env c" "item \<in> set (items c)"
  shows "\<exists>Model. get_product_model env (get_product_model_path (product item)) = Inr Model
           \<and> rows env (get_product_model_path (product item)) = filter_products env Model
           \<and> (\<forall>q \<in> set Model. model_module q = model_module (product item)
                               \<and> model_name q = model_name (product item))"
proof -
  have "product item \<in> set (products c)" using assms(2) by (simp add: products_def)
  from models_present_D(2)[OF assms(1) this] show ?thesis
    by (auto simp: rows_def)
qed

lemma filter_products_subset: "set (filter_products env Model) \<subseteq> set Model"
  by (auto simp: filter_products_def split: option.splits)

lemma sel_item:
  assumes "distinct (products c)" "models_present env c"
    and "(m, d) \<in> set (cart_serializable c)" "q \<in> set (sel env m d)"
  shows "\<exists>item \<in> set (items c). product item = q \<and> get_product_model_path q = m
           \<and> map_of d (str_int (pk q)) = Some (to_dict item)"
proof -
  from assms(4) have q: "q \<in> set (rows env m)" "str_int (pk q) \<in> fst ` set d"
    by (simp_all add: sel_def)
  from ser_key[OF assms(1,2,3) q(2)] obtain item where item: "item \<in> set (items c)"
    "get_product_model_path (product item) = m" "str_int (pk (product item)) = str_int (pk q)"
    "map_of d (str_int (pk q)) = Some (to_dict item)" by blast
  from rows_model[OF assms(2) item(1)] item(2) obtain Model where
    M: "rows env m = filter_products env Model"
    "\<forall>q \<in> set Model. model_module q = model_module (product item)
                               \<and> model_name q = model_name (product item)" by auto
  from q(1) M(1) filter_products_subset have "q \<in> set Model" by auto
  with M(2) have "model_module q = model_module (product item)" "model_name q = model_name (product item)"
    by auto
  moreover from item(3) have "pk q = pk (product item)" by (simp add: str_int_inj)
  ultimately have "product item = q" by simp
  with item show ?thesis by auto
qed

lemma load_products_ok:
  assumes "distinct (products c)"
    and "map_of rep m = Some d"
    and "\<And>q. q \<in> set ps \<Longrightarrow> \<exists>item \<in> set (items c). product item = q
            \<and> map_of d (str_int (pk q)) = Some (to_dict item)"
  shows "load_products rep m ps idict
           = Inr (foldl (\<lambda>dd q. upd2 dd m (PyStr (str_int (pk q))) (item_of c q)) idict ps)"
  using assms(3)
proof (induction ps arbitrary: idict)
  case Nil
  then show ?case by simp
next
  case (Cons q ps)
  from Cons.prems[of q] obtain item where item: "item \<in> set (items c)" "product item = q"
    "map_of d (str_int (pk q)) = Some (to_dict item)" by auto
  have io: "item_of c q = item"
    using item_of_product[OF assms(1) item(1)] item(2) by simp
  have ri: "CartItem_init q (PyInt (quantity item)) (price item) = Inr item"
    using rebuild_item[of item] item(2) by simp
  have IH: "load_products rep m ps idict'
           = Inr (foldl (\<lambda>dd q. upd2 dd m (PyStr (str_int (pk q))) (item_of c q)) idict' ps)" for idict'
    by (rule Cons.IH) (use Cons.prems in auto)
  show ?case
    by (simp add: assms(2) item(3) to_dict_fields Decimal_of_str_str_decimal ri io IH upd2_def)
qed

lemma foldl_concat_pairs:
  "foldl f a (concat xss) = foldl (foldl f) a xss"
  by (induction xss arbitrary: a) simp_all

lemma load_models_ok:
  assumes "distinct (products c)" "models_present env c"
    and "set todo \<subseteq> set (cart_serializable c)"
  shows "load_models env (cart_serializable c) todo idict
           = Inr (foldl (reload_step c) idict (reload_list env todo))"
  using assms(3)
proof (induction todo arbitrary: idict)
  case Nil
  then show ?case by (simp add: reload_list_def)
next
  case (Cons a todo)
  obtain m d where a: "a = (m, d)" by (cases a)
  with Cons.prems have md: "(m, d) \<in> set (cart_serializable c)"
    and rest: "set todo \<subseteq> set (cart_serializable c)" by auto
  from ser_model[OF assms(1,2) md] obtain item where item: "item \<in> set (items c)"
    "get_product_model_path (product item) = m" by blast
  from rows_model[OF assms(2) item(1)] item(2) obtain Model where
    M: "get_product_model env m = Inr Model" "rows env m = filter_products env Model" by auto
  have keys: "\<exists>n. k = str_int n" if "k \<in> set (map fst d)" for k
    using ser_key[OF assms(1,2) md, of k] that by auto
  have "filter_pk_in (map fst d) (filter_products env Model)
          = Inr (filter (\<lambda>q. str_int (pk q) \<in> set (map fst d)) (filter_products env Model))"
    by (rule filter_pk_in_canonical) (rule keys)
  then have fp: "filter_pk_in (map fst d) (filter_products env Model) = Inr (sel env m d)"
    by (simp add: sel_def M(2))
  have lp: "load_products (cart_serializable c) m (sel env m d) idict
              = Inr (foldl (\<lambda>dd q. upd2 dd m (PyStr (str_int (pk q))) (item_of c q)) idict (sel env m d))"
  proof (rule load_products_ok[OF assms(1) ser_map_of[OF md]])
    fix q assume "q \<in> set (sel env m d)"
    from sel_item[OF assms(1,2) md this]
    show "\<exists>item\<in>set (items c). product item = q \<and> map_of d (str_int (pk q)) = Some (to_dict item)"
      by blast
  qed
  have st: "foldl (\<lambda>dd q. upd2 dd m (PyStr (str_int (pk q))) (item_of c q)) idict (sel env m d)
              = foldl (reload_step c) idict (map (Pair m) (sel env m d))"
    by (simp add: foldl_map reload_step_def)
  show ?case
    unfolding a
    by (simp add: M(1) fp lp st Cons.IH[OF rest] reload_list_def)
qed

lemma reload_list_mem:
  "(m, q) \<in> set (reload_list env todo) \<longleftrightarrow> (\<exists>d. (m, d) \<in> set todo \<and> q \<in> set (sel env m d))"
  unfolding reload_list_def by auto

lemma live_rows: "live env p \<longleftrightarrow> p \<in> set (rows env (get_product_model_path p))"
  by (simp add: live_def rows_def split: sum.splits)

lemma reload_list_item:
  assumes "distinct (products c)" "models_present env c"
    and "mq \<in> set (reload_list env (cart_serializable c))"
  shows "item_of c (snd mq) \<in> set (items c)"
    and "product (item_of c (snd mq)) = snd mq"
    and "get_product_model_path (snd mq) = fst mq"
    and "live env (snd mq)"
proof -
  obtain m q where mq: "mq = (m, q)" by (cases mq)
  from assms(3)[unfolded mq reload_list_mem]
  obtain d where d: "(m, d) \<in> set (cart_serializable c)" "q \<in> set (sel env m d)"
    by blast
  from sel_item[OF assms(1,2) d] obtain item where item: "item \<in> set (items c)"
    "product item = q" "get_product_model_path q = m" by blast
  from item_of_product[OF assms(1) item(1)] item(2) have io: "item_of c q = item" by simp
  show "item_of c (snd mq) \<in> set (items c)" by (simp add: mq io item(1))
  show "product (item_of c (snd mq)) = snd mq" by (simp add: mq io item(2))
  show "get_product_model_path (snd mq) = fst mq" by (simp add: mq item(3))
  from d(2) have "q \<in> set (rows env m)" by (simp add: sel_def)
  then show "live env (snd mq)" by (simp add: mq live_rows item(3))
qed

lemma reload_list_complete:
  assumes "distinct (products c)" "models_present env c"
    and "item \<in> set (items c)" "live env (product item)"
  shows "(get_product_model_path (product item), product item)
           \<in> set (reload_list env (cart_serializable c))"
proof -
  let ?m = "get_product_model_path (product item)"
  let ?k = "str_int (pk (product item))"
  have "lookup2 (cart_serializable c) ?m ?k = Some (to_dict item)"
    unfolding ser_lookup[OF assms(1,2)] using assms(3) by blast
  then obtain d where d: "map_of (cart_serializable c) ?m = Some d" "map_of d ?k = Some (to_dict item)"
    by (cases "map_of (cart_serializable c) ?m") (simp_all add: lookup2_def)
  from d(1) have md: "(?m, d) \<in> set (cart_serializable c)" by (rule map_of_SomeD)
  from d(2) have "(?k, to_dict item) \<in> set d" by (rule map_of_SomeD)
  then have "?k \<in> fst ` set d" by force
  moreover from assms(4) have "product item \<in> set (rows env ?m)" by (simp add: live_rows)
  ultimately have "product item \<in> set (sel env ?m d)" by (simp add: sel_def)
  with md show ?thesis unfolding reload_list_mem by blast
qed

lemma keyed_inner:
  assumes "list_all (\<lambda>(k, v). kf v = (m, k)) d"
  shows "map kf (map snd d) = map (Pair m) (map fst d)"
  using assms by (induction d) auto

lemma keyed_flat_fst:
  assumes "list_all (\<lambda>(m, d). list_all (\<lambda>(k, v). kf v = (m, k)) d) dd"
  shows "fst ` set (map kf (concat (map (\<lambda>(m, d). map snd d) dd))) \<subseteq> fst ` set dd"
  using assms
proof (induction dd)
  case Nil
  then show ?case by simp
next
  case (Cons a dd)
  obtain m d where a: "a = (m, d)" by (cases a)
  from Cons.prems a have d: "list_all (\<lambda>(k, v). kf v = (m, k)) d"
    and rest: "list_all (\<lambda>(m, d). list_all (\<lambda>(k, v). kf v = (m, k)) d) dd"
    by auto
  have "fst ` set (map kf (map snd d)) \<subseteq> {m}"
    unfolding keyed_inner[OF d] by auto
  moreover note Cons.IH[OF rest]
  ultimately have "fst ` set (map kf (map snd d))
      \<union> fst ` set (map kf (concat (map (\<lambda>(m, d). map snd d) dd))) \<subseteq> {m} \<union> fst ` set dd"
    by (rule Un_mono)
  then show ?case
    unfolding a by (simp only: list.map concat.simps map_append set_append image_Un prod.case)
      simp
qed

lemma keyed_flat_distinct:
  assumes "distinct (map fst dd)"
    and "list_all (\<lambda>(m, d). distinct (map fst d)) dd"
    and "list_all (\<lambda>(m, d). list_all (\<lambda>(k, v). kf v = (m, k)) d) dd"
  shows "distinct (map kf (concat (map (\<lambda>(m, d). map snd d) dd)))"
  using assms
proof (induction dd)
  case Nil
  then show ?case by simp
next
  case (Cons a dd)
  obtain m d where a: "a = (m, d)" by (cases a)
  from Cons.prems a have d: "distinct (map fst d)" "list_all (\<lambda>(k, v). kf v = (m, k)) d"
    and m: "m \<notin> fst ` set dd"
    and rest: "distinct (map fst dd)" "list_all (\<lambda>(m, d). distinct (map fst d)) dd"
      "list_all (\<lambda>(m, d). list_all (\<lambda>(k, v). kf v = (m, k)) d) dd"
    by auto
  have 1: "distinct (map kf (map snd d))"
    unfolding keyed_inner[OF d(2)] using d(1) by (simp add: distinct_map inj_on_def)
  have 2: "distinct (map kf (concat (map (\<lambda>(m, d). map snd d) dd)))"
    by (rule Cons.IH[OF rest])
  have "fst ` set (map kf (map snd d)) \<subseteq> {m}"
    unfolding keyed_inner[OF d(2)] by auto
  with keyed_flat_fst[OF rest(3)] m
  have "fst ` set (map kf (map snd d)) \<inter> fst ` set (map kf (concat (map (\<lambda>(m, d). map snd d) dd))) = {}"
    by blast
  then have 3: "set (map kf (map snd d)) \<inter> set (map kf (concat (map (\<lambda>(m, d). map snd d) dd))) = {}"
    by blast
  from 1 2 3 show ?case by (simp add: a)
qed

lemma keyed_items_distinct:
  assumes "wf_dd (items_dict c)"
    and "\<And>m k v. lookup2 (items_dict c) m k = Some v \<Longrightarrow> kf v = (m, k)"
  shows "distinct (map kf (items c))"
proof -
  have "list_all (\<lambda>(m, d). list_all (\<lambda>(k, v). kf v = (m, k)) d) (items_dict c)"
    unfolding list_all2_lookup[OF assms(1)] using assms(2) by blast
  with assms(1) show ?thesis
    unfolding wf_dd_def items_def by (simp add: keyed_flat_distinct)
qed

lemma reload_items:
  assumes A: "distinct (products c)" and B: "models_present env c"
  defines "D \<equiv> foldl (reload_step c) [] (reload_list env (cart_serializable c))"
  shows "wf_dd D"
    and "{v. \<exists>m k. lookup2 D m k = Some v} = {item \<in> set (items c). live env (product item)}"
    and "\<And>m k v. lookup2 D m k = Some v \<Longrightarrow>
           (get_product_model_path (product v), PyStr (str_int (pk (product v)))) = (m, k)"
proof -
  let ?L = "reload_list env (cart_serializable c)"
  have D: "D = foldl (\<lambda>dd x. upd2 dd (fst x) (PyStr (str_int (pk (snd x)))) (item_of c (snd x))) [] ?L"
    unfolding D_def reload_step_def[abs_def] ..
  show "wf_dd D"
    unfolding D by (rule wf_dd_foldl_upd2) simp
  have look: "lookup2 D m k = Some v
        \<longleftrightarrow> (\<exists>x \<in> set ?L. fst x = m \<and> PyStr (str_int (pk (snd x))) = k \<and> item_of c (snd x) = v)" for m k v
    unfolding D
  proof (rule lookup2_foldl_upd2_iff)
    fix x y
    assume x: "x \<in> set ?L" and y: "y \<in> set ?L" and m: "fst x = fst y"
      and k: "PyStr (str_int (pk (snd x))) = PyStr (str_int (pk (snd y)))"
    note rx = reload_list_item[OF A B x] and ry = reload_list_item[OF A B y]
    show "item_of c (snd x) = item_of c (snd y)"
    proof (rule item_eqI[OF A B rx(1) ry(1)])
      show "get_product_model_path (product (item_of c (snd x)))
              = get_product_model_path (product (item_of c (snd y)))"
        using rx(2,3) ry(2,3) m by simp
      show "pk (product (item_of c (snd x))) = pk (product (item_of c (snd y)))"
        using rx(2) ry(2) k by (simp add: str_int_inj)
    qed
  qed
  show "{v. \<exists>m k. lookup2 D m k = Some v} = {item \<in> set (items c). live env (product item)}"
  proof (intro set_eqI iffI)
    fix v assume "v \<in> {v. \<exists>m k. lookup2 D m k = Some v}"
    then obtain x where x: "x \<in> set ?L" "item_of c (snd x) = v"
      unfolding look by blast
    from reload_list_item[OF A B x(1)] x(2)
    show "v \<in> {item \<in> set (items c). live env (product item)}" by auto
  next
    fix v assume "v \<in> {item \<in> set (items c). live env (product item)}"
    then have v: "v \<in> set (items c)" "live env (product v)" by simp_all
    from reload_list_complete[OF A B v]
    have "(get_product_model_path (product v), product v) \<in> set ?L" .
    moreover have "item_of c (product v) = v" by (rule item_of_product[OF A v(1)])
    ultimately have "lookup2 D (get_product_model_path (product v)) (PyStr (str_int (pk (product v)))) = Some v"
      unfolding look by force
    then show "v \<in> {v. \<exists>m k. lookup2 D m k = Some v}" by blast
  qed
  show "(get_product_model_path (product v), PyStr (str_int (pk (product v)))) = (m, k)"
    if "lookup2 D m k = Some v" for m k v
  proof -
    from that obtain x where x: "x \<in> set ?L" "fst x = m" "PyStr (str_int (pk (snd x))) = k"
      "item_of c (snd x) = v"
      unfolding look by blast
    from reload_list_item(2,3)[OF A B x(1)] x(2,3,4) show ?thesis by auto
  qed
qed


text \<open>
  Claim C1. Let a cart hold no product twice, and let the model of each of its products be
  importable, with a table of rows of that model. Storing the cart's
  \<^verbatim>\<open>cart_serializable\<close> in the session and building a new cart from that session, under
  the same key, raises no error, and the new cart holds exactly the items of the old one
  (same product, quantity and price) whose product is still in its table and passes the
  configured lookup, each product once; the items of products that were removed are gone.
\<close>

theorem session_round_trip:
  assumes "distinct (products c)" and "models_present env c"
    and "session_key_or_default env key_arg = session_key c"
  shows "\<exists>c'. Cart_init env (session (update_session c)) key_arg = Inr c'
           \<and> set (items c') = {item \<in> set (items c). live env (product item)}
           \<and> distinct (products c')"
proof -
  let ?D = "foldl (reload_step c) [] (reload_list env (cart_serializable c))"
  let ?c' = "\<lparr>items_dict = ?D, default_factory = True, session = session (update_session c),
              session_key = session_key c\<rparr>"
  have stored: "map_of (data (session (update_session c))) (session_key c) = Some (cart_serializable c)"
    by (simp add: update_session_def AList.update_conv')
  have lm: "load_models env (cart_serializable c) (cart_serializable c) [] = Inr ?D"
    by (rule load_models_ok[OF assms(1,2)]) simp
  have init: "Cart_init env (session (update_session c)) key_arg = Inr ?c'"
    by (simp add: Cart_init_def assms(3) stored lm)
  have "set (items ?c') = {v. \<exists>m k. lookup2 ?D m k = Some v}"
    using set_items_lookup[of ?c'] reload_items(1)[OF assms(1,2)] by simp
  also have "\<dots> = {item \<in> set (items c). live env (product item)}"
    by (rule reload_items(2)[OF assms(1,2)])
  finally have items: "set (items ?c') = {item \<in> set (items c). live env (product item)}" .
  have "distinct (map (\<lambda>v. (get_product_model_path (product v), PyStr (str_int (pk (product v)))))
          (items ?c'))"
  proof (rule keyed_items_distinct)
    show "wf_dd (items_dict ?c')"
      using reload_items(1)[OF assms(1,2)] by simp
    show "(get_product_model_path (product v), PyStr (str_int (pk (product v)))) = (m, k)"
      if "lookup2 (items_dict ?c') m k = Some v" for m k v
      using reload_items(3)[OF assms(1,2)] that by simp
  qed
  then have "distinct (map (\<lambda>p. (get_product_model_path p, PyStr (str_int (pk p))))
          (map product (items ?c')))"
    by (simp add: comp_def)
  then have "distinct (products ?c')"
    unfolding products_def
    using distinct_map[of "\<lambda>p. (get_product_model_path p, PyStr (str_int (pk p)))" "map product (items ?c')"]
    by blast
  with items init show ?thesis by blast
qed

theorem session_round_trip_witness:
  "distinct (products two_item_cart)
   \<and> models_present ex_env two_item_cart
   \<and> session_key_or_default ex_env None = session_key two_item_cart
   \<and> (\<exists>c'. Cart_init ex_env (session (update_session two_item_cart)) None = Inr c'
           \<and> set (items c') = {item \<in> set (items two_item_cart). live ex_env (product item)}
           \<and> distinct (products c'))
   \<and> live ex_env ex_product
   \<and> \<not> live ex_env ex_ticket"
proof -
  have h1: "distinct (products two_item_cart)"
    by code_simp
  have h2: "models_present ex_env two_item_cart"
    by code_simp
  have h3: "session_key_or_default ex_env None = session_key two_item_cart"
    by (simp add: session_key_or_default_def ex_env_def two_item_cart_def)
  have l: "live ex_env ex_product \<and> \<not> live ex_env ex_ticket"
    by code_simp
  from session_round_trip [OF h1 h2 h3] h1 h2 h3 l show ?thesis
    by blast
qed

section \<open>Clearing the cart\<close>

text \<open>
  Claim C9. After \<^verbatim>\<open>clear()\<close>, whatever the cart was, it has no items, \<^verbatim>\<open>is_empty\<close>
  holds, and the session holds the serialisation of the empty cart under the cart's key
  (the key itself and the other entries are as before) and is marked modified.
\<close>

theorem clear_empties_and_persists:
  "items (clear c) = []
   \<and> is_empty (clear c)
   \<and> cart_serializable (clear c) = []
   \<and> session_key (clear c) = session_key c
   \<and> data (session (clear c)) = AList.update (session_key c) [] (data (session c))
   \<and> map_of (data (session (clear c))) (session_key c) = Some []
   \<and> modified (session (clear c))"
  by (simp add: clear_def update_session_def items_def is_empty_def unique_count_def
      cart_serializable_def AList.update_conv')

section \<open>Operations on a product that is not in the cart\<close>

text \<open>
  Claim C10. For a product that is not in the cart, \<^verbatim>\<open>remove_single\<close> and
  \<^verbatim>\<open>set_quantity\<close> with a quantity of at least 0 return without an error and leave the
  whole cart as it was, items and session (nothing is persisted); \<^verbatim>\<open>set_quantity\<close> with a
  negative quantity raises \<^verbatim>\<open>ValueError\<close> all the same, the cart unchanged.
\<close>

theorem absent_product_noop:
  assumes "p \<notin> set (products c)"
  shows "remove_single c p = Inr c
         \<and> (0 \<le> q \<longrightarrow> set_quantity c p q = Inr c)
         \<and> (q < 0 \<longrightarrow> set_quantity c p q = Inl (ValueError, c))"
  using assms by (simp add: remove_single_def set_quantity_def)

theorem absent_product_noop_witness:
  "ex_ticket \<notin> set (products reloaded_cart)
   \<and> remove_single reloaded_cart ex_ticket = Inr reloaded_cart
   \<and> set_quantity reloaded_cart ex_ticket 0 = Inr reloaded_cart
   \<and> set_quantity reloaded_cart ex_ticket (- 1) = Inl (ValueError, reloaded_cart)"
proof -
  have h: "ex_ticket \<notin> set (products reloaded_cart)"
    by code_simp
  show ?thesis
    using h absent_product_noop [OF h, of 0] absent_product_noop [OF h, of "- 1"]
    by simp
qed

section \<open>Where the operations raise \<^verbatim>\<open>KeyError\<close>\<close>

text \<open>
  Two places of \<^verbatim>\<open>cart.py\<close> disagree with the rest of the class. \<^verbatim>\<open>Cart.__init__\<close>
  stores a rebuilt item under \<^verbatim>\<open>str(product.pk)\<close>, while \<^verbatim>\<open>add\<close>, \<^verbatim>\<open>remove\<close>,
  \<^verbatim>\<open>remove_single\<close> and \<^verbatim>\<open>set_quantity\<close> index with \<^verbatim>\<open>product.pk\<close>; and
  \<^verbatim>\<open>clear\<close> replaces the \<^verbatim>\<open>defaultdict(dict)\<close> by a plain \<^verbatim>\<open>{}\<close>, in which
  \<^verbatim>\<open>self._items_dict[model]\<close> finds nothing to create. The theorems of this section
  run the code on the smallest carts that show it.
\<close>

lemma stored_session_from_add:
  "add new_cart ex_product (Some (Decimal 999 (- 2))) 2 = Inr added_cart
   \<and> session added_cart = stored_session"
  by code_simp

lemma reloaded_cart_from_session:
  "Cart_init ex_env ex_session None = Inr new_cart
   \<and> Cart_init ex_env stored_session None = Inr reloaded_cart"
  by code_simp

text \<open>
  Claim C2, at the cart \<^verbatim>\<open>Cart(session)\<close> after \<^verbatim>\<open>clear()\<close>: the product is not in the
  cart, and \<^verbatim>\<open>add(product, Decimal('9.99'), 2)\<close> raises \<^verbatim>\<open>KeyError\<close> and stores
  nothing, so that no second \<^verbatim>\<open>add\<close> finds an item to aggregate into.
\<close>

theorem add_after_clear_raises:
  "ex_product \<notin> set (products (clear new_cart))
   \<and> add (clear new_cart) ex_product (Some (Decimal 999 (- 2))) 2
       = Inl (KeyError, clear new_cart)
   \<and> items (clear new_cart) = []"
  by code_simp

text \<open>
  Claim C3, at two carts. After \<^verbatim>\<open>clear()\<close>, \<^verbatim>\<open>add\<close> of a new product with a price and
  quantity 1 raises \<^verbatim>\<open>KeyError\<close>; and in the cart rebuilt from the session, \<^verbatim>\<open>add\<close> of
  the product it holds, with quantity 1, raises \<^verbatim>\<open>KeyError\<close>. Neither call has a
  quantity below 1 or a missing price.
\<close>

theorem add_raises_KeyError:
  "add (clear new_cart) ex_ticket (Some (Decimal 5 0)) 1 = Inl (KeyError, clear new_cart)
   \<and> ex_product \<in> set (products reloaded_cart)
   \<and> add reloaded_cart ex_product (Some (Decimal 999 (- 2))) 1 = Inl (KeyError, reloaded_cart)"
  by code_simp

text \<open>
  Claim C4, at the cart rebuilt from the session: the product is in the cart with quantity
  2, and \<^verbatim>\<open>set_quantity(product, 3)\<close> and \<^verbatim>\<open>set_quantity(product, 0)\<close> raise
  \<^verbatim>\<open>KeyError\<close>, the item unchanged.
\<close>

theorem set_quantity_reloaded_raises:
  "ex_product \<in> set (products reloaded_cart)
   \<and> set_quantity reloaded_cart ex_product 3 = Inl (KeyError, reloaded_cart)
   \<and> set_quantity reloaded_cart ex_product 0 = Inl (KeyError, reloaded_cart)"
  by code_simp

text \<open>
  Claim C5, at the cart rebuilt from the session: the product is in the cart with quantity
  2, and \<^verbatim>\<open>remove_single(product)\<close> raises \<^verbatim>\<open>KeyError\<close> instead of leaving quantity 1.
\<close>

theorem remove_single_reloaded_raises:
  "map quantity (items reloaded_cart) = [2]
   \<and> ex_product \<in> set (products reloaded_cart)
   \<and> remove_single reloaded_cart ex_product = Inl (KeyError, reloaded_cart)"
  by code_simp

text \<open>
  Claim C6, at the cart rebuilt from the session: the product is in the cart, and
  \<^verbatim>\<open>remove(product)\<close> raises \<^verbatim>\<open>KeyError\<close>; the entry stays and nothing is persisted.
\<close>

theorem remove_reloaded_raises:
  "ex_product \<in> set (products reloaded_cart)
   \<and> remove reloaded_cart ex_product = Inl (KeyError, reloaded_cart)"
  by code_simp

end
